theory Spec2Isabelle
  imports Main "HOL-Library.Sublist"
begin

section \<open>Paths: Go's path/filepath with the Unix separator\<close>

text \<open>
  The program calls \<^verbatim>\<open>filepath.Clean\<close>, \<^verbatim>\<open>filepath.Join\<close>, \<^verbatim>\<open>filepath.Base\<close> and
  \<^verbatim>\<open>filepath.Rel\<close> of the Go standard library. They are transcribed here for a
  Unix target (separator \<^verbatim>\<open>/\<close>, no volume names): the index loops of the library
  become recursion over the part of the string that is still to be read.
\<close>

abbreviation Separator :: char where
  "Separator \<equiv> CHR ''/''"

text \<open>
  The inner loop of \<^verbatim>\<open>Clean\<close> at a \<^verbatim>\<open>..\<close> element:
  \<^verbatim>\<open>for out.w > dotdot && !os.IsPathSeparator(out.index(out.w)) { out.w-- }\<close>.
\<close>

fun backtrack :: "string \<Rightarrow> nat \<Rightarrow> nat \<Rightarrow> nat" where
  "backtrack buf dotdot w =
     (if w > dotdot \<and> buf ! w \<noteq> Separator then backtrack buf dotdot (w - 1) else w)"

declare backtrack.simps [simp del]

text \<open>
  The main loop of \<^verbatim>\<open>Clean\<close>: \<open>path\<close> is what is left to read (\<^verbatim>\<open>path[r:]\<close>),
  \<open>out\<close> is the buffer written so far (\<^verbatim>\<open>out.w\<close> is its length), \<open>dotdot\<close> is the
  index where a \<^verbatim>\<open>..\<close> must stop backtracking.
\<close>

function clean_loop :: "bool \<Rightarrow> string \<Rightarrow> string \<Rightarrow> nat \<Rightarrow> string" where
  "clean_loop rooted [] out dotdot = out"
| "clean_loop rooted (c # cs) out dotdot =
     (if c = Separator then
        \<comment> \<open>empty path element\<close>
        clean_loop rooted cs out dotdot
      else if c = CHR ''.'' \<and> (cs = [] \<or> hd cs = Separator) then
        \<comment> \<open>. element\<close>
        clean_loop rooted cs out dotdot
      else if c = CHR ''.'' \<and> hd cs = CHR ''.'' \<and> (tl cs = [] \<or> hd (tl cs) = Separator) then
        \<comment> \<open>.. element: remove to last separator\<close>
        (if length out > dotdot then
           clean_loop rooted (tl cs) (take (backtrack out dotdot (length out - 1)) out) dotdot
         else if \<not> rooted then
           (let out' = (if length out > 0 then out @ [Separator] else out) @ ''..''
            in clean_loop rooted (tl cs) out' (length out'))
         else clean_loop rooted (tl cs) out dotdot)
      else
        \<comment> \<open>real path element: add slash if needed, copy element\<close>
        (let out' = (if rooted \<and> length out \<noteq> 1 \<or> \<not> rooted \<and> length out \<noteq> 0
                     then out @ [Separator] else out)
         in clean_loop rooted (dropWhile (\<lambda>x. x \<noteq> Separator) cs)
              (out' @ c # takeWhile (\<lambda>x. x \<noteq> Separator) cs) dotdot))"
  by pat_completeness auto
termination
  by (relation "measure (\<lambda>(rooted, path, out, dotdot). length path)")
    (auto simp: le_imp_less_Suc length_dropWhile_le)

definition Clean :: "string \<Rightarrow> string" where
  "Clean path =
     (if path = [] then ''.''
      else let rooted = (hd path = Separator);
               out = (if rooted then clean_loop rooted (tl path) [Separator] 1
                      else clean_loop rooted path [] 0)
           in if out = [] then ''.'' else out)"

text \<open>\<^verbatim>\<open>strings.Join(elem, "/")\<close>.\<close>

fun strings_Join :: "string list \<Rightarrow> string" where
  "strings_Join [] = []"
| "strings_Join [e] = e"
| "strings_Join (e # es) = e @ Separator # strings_Join es"

text \<open>
  \<^verbatim>\<open>filepath.Join\<close>: leading empty elements are skipped, the rest is joined with the
  separator and cleaned; with no non-empty element the result is the empty string.
\<close>

definition Join :: "string list \<Rightarrow> string" where
  "Join elem =
     (case dropWhile (\<lambda>e. e = []) elem of
        [] \<Rightarrow> []
      | es \<Rightarrow> Clean (strings_Join es))"

text \<open>
  \<^verbatim>\<open>filepath.Base\<close>: strip trailing slashes, keep what follows the last slash; the
  empty path gives \<^verbatim>\<open>.\<close>, a path of slashes only gives \<^verbatim>\<open>/\<close>.
\<close>

definition Base :: "string \<Rightarrow> string" where
  "Base path =
     (if path = [] then ''.''
      else let p = rev (dropWhile (\<lambda>x. x = Separator) (rev path));
               b = rev (takeWhile (\<lambda>x. x \<noteq> Separator) (rev p))
           in if b = [] then [Separator] else b)"

text \<open>
  The loop of \<^verbatim>\<open>filepath.Rel\<close> that positions both paths at their first differing
  elements. The arguments are \<^verbatim>\<open>base[b0:]\<close> and \<^verbatim>\<open>targ[t0:]\<close>; the result is
  \<^verbatim>\<open>(base[b0:bi], base[b0:], targ[t0:])\<close> when the loop is left.
\<close>

function rel_loop :: "string \<Rightarrow> string \<Rightarrow> string \<times> string \<times> string" where
  "rel_loop base targ =
     (if base \<noteq> [] \<and> targ \<noteq> [] then
        (let be = takeWhile (\<lambda>x. x \<noteq> Separator) base;
             te = takeWhile (\<lambda>x. x \<noteq> Separator) targ
         in if te \<noteq> be then (be, base, targ)
            else rel_loop (drop (Suc (length be)) base) (drop (Suc (length te)) targ))
      else ([], base, targ))"
  by pat_completeness auto
termination
  by (relation "measure (\<lambda>(base, targ). length base)") auto

declare rel_loop.simps [simp del]

datatype errno = ENOENT | ENOTDIR | EACCES | EIO

text \<open>
  The errors the program passes on: a failed system call on a path
  (\<^verbatim>\<open>*os.PathError\<close>), the error of \<^verbatim>\<open>filepath.Rel\<close>, the zip writer's refusal of a
  name longer than 65535 bytes, a failed write to the connection, and a form that
  does not parse.
\<close>

datatype error =
    PathError string string errno
  | ErrRel string string
  | ErrLongName
  | ErrWrite
  | ErrForm string

fun errno_text :: "errno \<Rightarrow> string" where
  "errno_text ENOENT = ''no such file or directory''"
| "errno_text ENOTDIR = ''not a directory''"
| "errno_text EACCES = ''permission denied''"
| "errno_text EIO = ''input/output error''"

text \<open>\<^verbatim>\<open>err.Error()\<close>, which \<^verbatim>\<open>%v\<close> prints.\<close>

fun Error :: "error \<Rightarrow> string" where
  "Error (PathError op path e) = op @ '' '' @ path @ '': '' @ errno_text e"
| "Error (ErrRel targpath basepath) =
     ''Rel: can'' @ [CHR 0x27] @ ''t make '' @ targpath @ '' relative to '' @ basepath"
| "Error ErrLongName = ''zip: FileHeader.Name too long''"
| "Error ErrWrite = ''write: broken pipe''"
| "Error (ErrForm msg) = msg"

definition Rel :: "string \<Rightarrow> string \<Rightarrow> error + string" where
  "Rel basepath targpath =
     (let base = Clean basepath; targ = Clean targpath
      in if targ = base then Inr ''.''
         else
           let base = (if base = ''.'' then [] else base);
               baseSlashed = (base \<noteq> [] \<and> hd base = Separator);
               targSlashed = (targ \<noteq> [] \<and> hd targ = Separator)
           in if baseSlashed \<noteq> targSlashed then Inl (ErrRel targpath basepath)
              else
                case rel_loop base targ of
                  (be, brest, trest) \<Rightarrow>
                    if be = ''..'' then Inl (ErrRel targpath basepath)
                    else if brest \<noteq> [] then
                      \<comment> \<open>Base elements left. Must go up before going down.\<close>
                      (let seps = length (filter (\<lambda>x. x = Separator) brest)
                       in Inr (''..'' @ concat (replicate seps ''/..'')
                               @ (if trest \<noteq> [] then Separator # trest else [])))
                    else Inr trest)"


section \<open>File information and time stamps\<close>

text \<open>
  A \<^verbatim>\<open>time.Time\<close> is represented by the civil date and clock that its methods
  \<^verbatim>\<open>Date()\<close> and \<^verbatim>\<open>Clock()\<close> report.
\<close>

record time =
  year :: int
  month :: nat
  day :: nat
  hour :: nat
  minute :: nat
  second :: nat

text \<open>Decimal digits of a natural number (\<^verbatim>\<open>strconv\<close>, \<^verbatim>\<open>fmt\<close>'s \<^verbatim>\<open>%d\<close>).\<close>

fun digits :: "nat \<Rightarrow> string" where
  "digits n =
     (if n < 10 then [char_of (48 + n)]
      else digits (n div 10) @ [char_of (48 + n mod 10)])"

declare digits.simps [simp del]

definition itoa :: "int \<Rightarrow> string" where
  "itoa x = (if x < 0 then CHR ''-'' # digits (nat (- x)) else digits (nat x))"

text \<open>\<^verbatim>\<open>appendInt\<close> of package time: sign, zero padding to \<open>width\<close>, digits.\<close>

definition appendInt :: "int \<Rightarrow> nat \<Rightarrow> string" where
  "appendInt x width =
     (let u = digits (nat \<bar>x\<bar>)
      in (if x < 0 then ''-'' else []) @ replicate (width - length u) (CHR ''0'') @ u)"

text \<open>\<^verbatim>\<open>t.Format("2006-01-02 15:04:05")\<close>.\<close>

definition Format :: "time \<Rightarrow> string" where
  "Format t =
     appendInt (year t) 4 @ ''-'' @ appendInt (int (month t)) 2 @ ''-'' @
     appendInt (int (day t)) 2 @ '' '' @ appendInt (int (hour t)) 2 @ '':'' @
     appendInt (int (minute t)) 2 @ '':'' @ appendInt (int (second t)) 2"

text \<open>\<^verbatim>\<open>os.FileInfo\<close>: the four methods the program calls.\<close>

record FileInfo =
  fi_Name :: string
  fi_Size :: int
  fi_ModTime :: time
  fi_IsDir :: bool

section \<open>The operating system\<close>

text \<open>
  An open file (\<^verbatim>\<open>*os.File\<close>): what \<^verbatim>\<open>Stat\<close> returns, the bytes that reading it
  delivers, and the error that ends the reading (\<open>None\<close> is end of file).
\<close>

record File =
  f_Stat :: "error + FileInfo"
  f_data :: string
  f_err :: "error option"

text \<open>
  The file system as the program sees it: \<^verbatim>\<open>os.Open\<close> and \<^verbatim>\<open>ioutil.ReadDir\<close>, each
  with the error it may return. \<^verbatim>\<open>ioutil.ReadDir\<close> is the library's directory
  listing; the list is taken in the order the library returns it.
\<close>

record OS =
  os_Open :: "string \<Rightarrow> error + File"
  ioutil_ReadDir :: "string \<Rightarrow> error + FileInfo list"

section \<open>The response writer\<close>

text \<open>
  What is written to a response: plain bytes, or a zip stream given by its entries
  (name and content, in the order of the archive).
\<close>

datatype chunk = Bytes string | ZipStream "(string \<times> string) list"

text \<open>
  \<^verbatim>\<open>http.ResponseWriter\<close>: the header map the handler edits, the status line and
  the headers once they are sent (\<^verbatim>\<open>WriteHeader\<close>, or the first \<^verbatim>\<open>Write\<close>), the body,
  and how many more calls of \<^verbatim>\<open>Write\<close> the connection accepts (\<open>None\<close>: all of them).
\<close>

record ResponseWriter =
  rw_Header :: "string \<rightharpoonup> string"
  rw_sent :: "(nat \<times> (string \<rightharpoonup> string)) option"
  rw_body :: "chunk list"
  rw_budget :: "nat option"

definition Header_Set :: "string \<Rightarrow> string \<Rightarrow> ResponseWriter \<Rightarrow> ResponseWriter" where
  "Header_Set k v w = w\<lparr>rw_Header := (rw_Header w)(k \<mapsto> v)\<rparr>"

definition WriteHeader :: "nat \<Rightarrow> ResponseWriter \<Rightarrow> ResponseWriter" where
  "WriteHeader code w =
     (case rw_sent w of
        None \<Rightarrow> w\<lparr>rw_sent := Some (code, rw_Header w)\<rparr>
      | Some s \<Rightarrow> w)"

definition Write :: "chunk \<Rightarrow> ResponseWriter \<Rightarrow> ResponseWriter \<times> error option" where
  "Write c w =
     (let w = WriteHeader 200 w
      in case rw_budget w of
           None \<Rightarrow> (w\<lparr>rw_body := rw_body w @ [c]\<rparr>, None)
         | Some 0 \<Rightarrow> (w, Some ErrWrite)
         | Some (Suc n) \<Rightarrow> (w\<lparr>rw_body := rw_body w @ [c], rw_budget := Some n\<rparr>, None))"

text \<open>Writes in sequence, stopping at the first error.\<close>

fun Write_all :: "string list \<Rightarrow> ResponseWriter \<Rightarrow> ResponseWriter \<times> error option" where
  "Write_all [] w = (w, None)"
| "Write_all (s # ss) w =
     (case Write (Bytes s) w of
        (w', Some e) \<Rightarrow> (w', Some e)
      | (w', None) \<Rightarrow> Write_all ss w')"

text \<open>
  \<^verbatim>\<open>http.Error\<close>: sets two headers, writes the status line, prints the message and a
  newline.
\<close>

definition http_Error :: "ResponseWriter \<Rightarrow> string \<Rightarrow> nat \<Rightarrow> ResponseWriter" where
  "http_Error w msg code =
     (let w = Header_Set ''Content-Type'' ''text/plain; charset=utf-8'' w;
          w = Header_Set ''X-Content-Type-Options'' ''nosniff'' w;
          w = WriteHeader code w
      in fst (Write (Bytes (msg @ ''\<newline>'')) w))"

text \<open>
  The response a client receives when the handler has returned: a handler that wrote
  nothing gets status 200 with the headers as they stand.
\<close>

definition status :: "ResponseWriter \<Rightarrow> nat" where
  "status w = (case rw_sent w of None \<Rightarrow> 200 | Some (code, h) \<Rightarrow> code)"

definition headers :: "ResponseWriter \<Rightarrow> string \<rightharpoonup> string" where
  "headers w = (case rw_sent w of None \<Rightarrow> rw_Header w | Some (code, h) \<Rightarrow> h)"

definition body_text :: "ResponseWriter \<Rightarrow> string" where
  "body_text w = concat (map (\<lambda>c. case c of Bytes s \<Rightarrow> s | ZipStream z \<Rightarrow> []) (rw_body w))"

definition NewResponse :: "nat option \<Rightarrow> ResponseWriter" where
  "NewResponse budget =
     \<lparr>rw_Header = Map.empty, rw_sent = None, rw_body = [], rw_budget = budget\<rparr>"


section \<open>The listing page\<close>

text \<open>
  The repository holds two revisions of the program: \<^verbatim>\<open>serve.go\<close> serves GET only
  (\<open>Basic\<close>); the later revision adds a checkbox column to the listing and the POST
  request that downloads a zip archive (\<open>Extended\<close>). \<^verbatim>\<open>handleGet\<close> and \<^verbatim>\<open>serveDir\<close> are
  the same text in both; the template and the method switch differ.
\<close>

datatype variant = Basic | Extended

record file_entry =
  Path :: string
  Name :: string
  Size :: int
  ModTime :: string
  IsDir :: bool

definition tabs :: "nat \<Rightarrow> string" where
  "tabs n = replicate n (CHR 0x09)"

text \<open>
  The text nodes of \<^verbatim>\<open>listTemplate\<close>, in the order of the template: up to the first
  \<^verbatim>\<open>{{.Path}}\<close>, up to the second, up to \<^verbatim>\<open>{{range .Files}}\<close>, and after the
  \<^verbatim>\<open>{{end}}\<close> of the range.
\<close>

fun tmpl_head :: "variant \<Rightarrow> string" where
  \<open>tmpl_head v =
     ''<!DOCTYPE html>\<newline>'' @
     ''<html lang="en">\<newline>'' @
     ''<head>\<newline>'' @
     ''    <meta charset="UTF-8">\<newline>'' @
     ''    <meta name="viewport" content="width=device-width, initial-scale=1.0">\<newline>'' @
     ''    <link rel="icon" href=data:, />\<newline>'' @
     ''    <title>Index of ''\<close>

fun tmpl_style :: "variant \<Rightarrow> string" where
  \<open>tmpl_style Basic =
     ''</title>\<newline>'' @
     ''    <style>\<newline>'' @
     tabs 2 @ ''* { font-family: monospace; }\<newline>'' @
     tabs 2 @ ''body { display: flex; flex-direction: column; align-items: center; }\<newline>'' @
     tabs 2 @ ''th { text-align: left; }\<newline>'' @
     tabs 2 @ ''th:before { content: '' @ [CHR 0x27] @ [CHR 0x27] @ ''; display: block; min-width: 75px; }\<newline>'' @
     ''    </style>\<newline>'' @
     ''</head>\<newline>'' @
     ''<body>\<newline>'' @
     tabs 1 @ ''<h1>Index of ''\<close>
| \<open>tmpl_style Extended =
     ''</title>\<newline>'' @
     ''    <style>\<newline>'' @
     tabs 2 @ ''* { font-family: monospace; }\<newline>'' @
     tabs 2 @ ''body { display: flex; flex-direction: column; align-items: center; }\<newline>'' @
     tabs 2 @ ''th { text-align: left; }\<newline>'' @
     tabs 2 @ ''th:not(:first-child):before { content: '' @ [CHR 0x27] @ [CHR 0x27] @ ''; display: block; min-width: 75px; }\<newline>'' @
     tabs 2 @ ''table { margin-bottom: 16px; }\<newline>'' @
     ''    </style>\<newline>'' @
     ''</head>\<newline>'' @
     ''<body>\<newline>'' @
     tabs 1 @ ''<h1>Index of ''\<close>

fun tmpl_table :: "variant \<Rightarrow> string" where
  \<open>tmpl_table Basic =
     ''</h1>\<newline>'' @
     tabs 1 @ ''<table>\<newline>'' @
     tabs 2 @ ''<tr>\<newline>'' @
     tabs 3 @ ''<th>Name</th>\<newline>'' @
     tabs 3 @ ''<th>Size</th>\<newline>'' @
     tabs 3 @ ''<th>Last modified</th>\<newline>'' @
     tabs 2 @ ''</tr>\<newline>'' @
     tabs 1\<close>
| \<open>tmpl_table Extended =
     ''</h1>\<newline>'' @
     tabs 1 @ ''<form method="POST">\<newline>'' @
     tabs 2 @ ''<table>\<newline>'' @
     tabs 3 @ ''<tr>\<newline>'' @
     tabs 4 @ ''<th />\<newline>'' @
     tabs 4 @ ''<th>Name</th>\<newline>'' @
     tabs 4 @ ''<th>Size</th>\<newline>'' @
     tabs 4 @ ''<th>Last modified</th>\<newline>'' @
     tabs 3 @ ''</tr>\<newline>'' @
     tabs 2\<close>

fun tmpl_foot :: "variant \<Rightarrow> string" where
  \<open>tmpl_foot Basic =
     ''\<newline>'' @
     tabs 1 @ ''</table>\<newline>'' @
     ''</body>\<newline>'' @
     ''</html>''\<close>
| \<open>tmpl_foot Extended =
     ''\<newline>'' @
     tabs 2 @ ''</table>\<newline>'' @
     ''\<newline>'' @
     tabs 2 @ ''<input type="submit" value="Download zip" />\<newline>'' @
     tabs 1 @ ''</form>\<newline>'' @
     ''</body>\<newline>'' @
     ''</html>''\<close>

text \<open>
  One pass through the body of \<^verbatim>\<open>{{range .Files}}\<close>: the text nodes and the printed
  fields, one list element per call of \<^verbatim>\<open>Write\<close>. The two cells under
  \<^verbatim>\<open>{{if not .IsDir}}\<close> are printed for files only.
\<close>

fun tmpl_row :: "variant \<Rightarrow> file_entry \<Rightarrow> string list" where
  \<open>tmpl_row Basic f =
     [''\<newline>'' @ tabs 2 @ ''<tr>\<newline>'' @ tabs 3 @ ''<td><a href="'',
      Path f, ''">'', Name f,
      ''</a></td>\<newline>'' @ tabs 3 @ ''<td>'']
     @ (if \<not> IsDir f then ['' '', itoa (Size f), '' ''] else [])
     @ [''</td>\<newline>'' @ tabs 3 @ ''<td>'']
     @ (if \<not> IsDir f then ['' '', ModTime f, '' ''] else [])
     @ [''</td>\<newline>'' @ tabs 2 @ ''</tr>\<newline>'' @ tabs 1]\<close>
| \<open>tmpl_row Extended f =
     [''\<newline>'' @ tabs 3 @ ''<tr>\<newline>'' @
        tabs 4 @ ''<td><input type="checkbox" name="files" value="'',
      Name f,
      ''" /></td>\<newline>'' @ tabs 4 @ ''<td><a href="'',
      Path f, ''">'', Name f,
      ''</a></td>\<newline>'' @ tabs 4 @ ''<td>'']
     @ (if \<not> IsDir f then ['' '', itoa (Size f), '' ''] else [])
     @ [''</td>\<newline>'' @ tabs 4 @ ''<td>'']
     @ (if \<not> IsDir f then ['' '', ModTime f, '' ''] else [])
     @ [''</td>\<newline>'' @ tabs 3 @ ''</tr>\<newline>'' @ tabs 2]\<close>

declare tmpl_head.simps [simp del] tmpl_style.simps [simp del] tmpl_table.simps [simp del]
  tmpl_foot.simps [simp del] tmpl_row.simps [simp del]

text \<open>
  \<^verbatim>\<open>t.Execute(w, struct{Path; Files})\<close> for the parsed \<^verbatim>\<open>listTemplate\<close>: the sequence of
  writes, stopped by the first one that fails.
\<close>

definition listTemplate :: "variant \<Rightarrow> string \<Rightarrow> file_entry list \<Rightarrow> string list" where
  "listTemplate v path fs =
     [tmpl_head v, path, tmpl_style v, path, tmpl_table v]
     @ concat (map (tmpl_row v) fs) @ [tmpl_foot v]"

definition Execute ::
  "variant \<Rightarrow> ResponseWriter \<Rightarrow> string \<Rightarrow> file_entry list \<Rightarrow> ResponseWriter \<times> error option" where
  "Execute v w path fs = Write_all (listTemplate v path fs) w"

definition serveDir ::
  "variant \<Rightarrow> ResponseWriter \<Rightarrow> string \<Rightarrow> FileInfo list \<Rightarrow> ResponseWriter \<times> error option" where
  "serveDir v w path files =
     (let fs = foldl (\<lambda>fs f. fs @
                 [\<lparr>Path = Join [path, fi_Name f],
                   Name = fi_Name f,
                   Size = fi_Size f,
                   ModTime = Format (fi_ModTime f),
                   IsDir = fi_IsDir f\<rparr>]) [] files
      in Execute v w path fs)"

section \<open>The request handler\<close>

text \<open>The fields \<^verbatim>\<open>dir\<close>, \<^verbatim>\<open>quiet\<close> and \<^verbatim>\<open>addr\<close> of \<^verbatim>\<open>app\<close>.\<close>

record app =
  app_dir :: string
  app_quiet :: bool
  app_addr :: string

text \<open>
  Of \<^verbatim>\<open>*http.Request\<close>: the method, \<^verbatim>\<open>r.URL.Path\<close>, and what \<^verbatim>\<open>r.ParseForm()\<close> yields,
  an error or the map \<^verbatim>\<open>r.Form\<close>.
\<close>

record Request =
  Method :: string
  URL_Path :: string
  ParseForm :: "error + (string \<Rightarrow> string list)"

text \<open>\<^verbatim>\<open>io.Copy(w, f)\<close> to the response: a file with no bytes causes no write.\<close>

definition io_Copy :: "ResponseWriter \<Rightarrow> File \<Rightarrow> ResponseWriter \<times> error option" where
  "io_Copy w f =
     (if f_data f = [] then (w, f_err f)
      else case Write (Bytes (f_data f)) w of
             (w', Some e) \<Rightarrow> (w', Some e)
           | (w', None) \<Rightarrow> (w', f_err f))"

definition handleGet ::
  "variant \<Rightarrow> app \<Rightarrow> OS \<Rightarrow> ResponseWriter \<Rightarrow> Request \<Rightarrow> ResponseWriter \<times> error option" where
  "handleGet v a os w r =
     (let urlPath = Clean (URL_Path r);
          dirPath = Join [app_dir a, urlPath]
      in case os_Open os dirPath of
           Inl err \<Rightarrow> (w, Some err)
         | Inr f \<Rightarrow>
             (case f_Stat f of
                Inl err \<Rightarrow> (w, Some err)
              | Inr info \<Rightarrow>
                  if fi_IsDir info then
                    (case ioutil_ReadDir os dirPath of
                       Inl err \<Rightarrow> (w, Some err)
                     | Inr files \<Rightarrow> (fst (serveDir v w urlPath files), None))
                  else io_Copy w f))"


section \<open>The archive\<close>

text \<open>
  \<^verbatim>\<open>zip.Writer\<close>: the entries created so far, each with the bytes copied into it. The
  stream reaches the underlying writer when the zip writer is closed.
\<close>

record zip_Writer =
  zw_files :: "(string \<times> string) list"

definition zip_NewWriter :: zip_Writer where
  "zip_NewWriter = \<lparr>zw_files = []\<rparr>"

text \<open>
  \<^verbatim>\<open>zw.Create(name)\<close> starts a new entry; the header's name field holds at most
  65535 bytes.
\<close>

definition zip_Create :: "zip_Writer \<Rightarrow> string \<Rightarrow> error + zip_Writer" where
  "zip_Create zw name =
     (if length name > 65535 then Inl ErrLongName
      else Inr (zw\<lparr>zw_files := zw_files zw @ [(name, [])]\<rparr>))"

text \<open>\<^verbatim>\<open>io.Copy(zf, f)\<close> into the entry \<^verbatim>\<open>zf\<close> that was created last.\<close>

definition io_Copy_zip :: "zip_Writer \<Rightarrow> File \<Rightarrow> zip_Writer \<times> error option" where
  "io_Copy_zip zw f =
     (case rev (zw_files zw) of
        [] \<Rightarrow> (zw, f_err f)
      | (name, content) # earlier \<Rightarrow>
          (zw\<lparr>zw_files := rev earlier @ [(name, content @ f_data f)]\<rparr>, f_err f))"

definition zip_Close :: "zip_Writer \<Rightarrow> ResponseWriter \<Rightarrow> ResponseWriter \<times> error option" where
  "zip_Close zw w = Write (ZipStream (zw_files zw)) w"

text \<open>
  \<^verbatim>\<open>addToArchive\<close> calls itself for every entry of a directory, and the file system
  decides how deep that goes. The first argument bounds the depth of the calls:
  \<open>None\<close> is the result of a run that would go deeper.
\<close>

fun addToArchive ::
    "nat \<Rightarrow> OS \<Rightarrow> zip_Writer \<Rightarrow> string \<Rightarrow> string \<Rightarrow> (zip_Writer \<times> error option) option"
  and addToArchive_range ::
    "nat \<Rightarrow> OS \<Rightarrow> zip_Writer \<Rightarrow> string \<Rightarrow> string \<Rightarrow> FileInfo list
       \<Rightarrow> (zip_Writer \<times> error option) option" where
  "addToArchive 0 os zw dir path = None"
| "addToArchive (Suc n) os zw dir path =
     (case Rel dir path of
        Inl err \<Rightarrow> Some (zw, Some err)
      | Inr relPath \<Rightarrow>
          (case os_Open os path of
             Inl err \<Rightarrow> Some (zw, Some err)
           | Inr f \<Rightarrow>
               (case f_Stat f of
                  Inl err \<Rightarrow> Some (zw, Some err)
                | Inr fi \<Rightarrow>
                    if fi_IsDir fi then
                      (case ioutil_ReadDir os path of
                         Inl err \<Rightarrow> Some (zw, Some err)
                       | Inr fis \<Rightarrow> addToArchive_range n os zw dir path fis)
                    else
                      (case zip_Create zw relPath of
                         Inl err \<Rightarrow> Some (zw, Some err)
                       | Inr zf \<Rightarrow> Some (io_Copy_zip zf f)))))"
| "addToArchive_range n os zw dir path [] = Some (zw, None)"
| "addToArchive_range n os zw dir path (fi # fis) =
     (case addToArchive n os zw dir (Join [path, fi_Name fi]) of
        None \<Rightarrow> None
      | Some (zw', Some err) \<Rightarrow> Some (zw', Some err)
      | Some (zw', None) \<Rightarrow> addToArchive_range n os zw' dir path fis)"

declare addToArchive.simps [simp del]

text \<open>The loop \<^verbatim>\<open>for _, name := range fileNames\<close> of \<^verbatim>\<open>archive\<close>.\<close>

fun archive_range ::
    "nat \<Rightarrow> OS \<Rightarrow> zip_Writer \<Rightarrow> string \<Rightarrow> string list
       \<Rightarrow> (zip_Writer \<times> error option) option" where
  "archive_range n os zw dir [] = Some (zw, None)"
| "archive_range n os zw dir (name # names) =
     (case addToArchive n os zw dir (Join [dir, name]) of
        None \<Rightarrow> None
      | Some (zw', Some err) \<Rightarrow> Some (zw', Some err)
      | Some (zw', None) \<Rightarrow> archive_range n os zw' dir names)"

text \<open>
  \<^verbatim>\<open>archive\<close>: the deferred \<^verbatim>\<open>zw.Close()\<close> runs on every return, and its own error is
  dropped.
\<close>

definition archive ::
    "nat \<Rightarrow> OS \<Rightarrow> ResponseWriter \<Rightarrow> string \<Rightarrow> string list
       \<Rightarrow> (ResponseWriter \<times> error option) option" where
  "archive n os w dir filenames =
     (let zw = zip_NewWriter;
          fileNames = filenames;
          first = (if length fileNames = 0 then addToArchive n os zw dir dir
                   else Some (zw, None))
      in case first of
           None \<Rightarrow> None
         | Some (zw', Some err) \<Rightarrow> Some (fst (zip_Close zw' w), Some err)
         | Some (zw', None) \<Rightarrow>
             (case archive_range n os zw' dir fileNames of
                None \<Rightarrow> None
              | Some (zw'', res) \<Rightarrow> Some (fst (zip_Close zw'' w), res)))"

definition dirname :: "string \<Rightarrow> string" where
  "dirname dir =
     (let base = Base dir
      in if base = ''.'' \<or> base = ''/'' then ''root'' else base)"

definition handlePost ::
    "nat \<Rightarrow> app \<Rightarrow> OS \<Rightarrow> ResponseWriter \<Rightarrow> Request
       \<Rightarrow> (ResponseWriter \<times> error option) option" where
  \<open>handlePost n a os w r =
     (case ParseForm r of
        Inl err \<Rightarrow> Some (w, Some err)
      | Inr form \<Rightarrow>
          (let dir = Join [app_dir a, Clean (URL_Path r)];
               w = Header_Set ''Content-Disposition''
                     (''attachment; filename="'' @ dirname dir @ ''.zip"'') w
           in archive n os w dir (form ''files'')))\<close>

text \<open>
  The handler. Logging leaves the response as it is and is left out. The revision
  \<^verbatim>\<open>serve.go\<close> has no case for POST, which falls to the default there.
\<close>

definition handler ::
    "variant \<Rightarrow> nat \<Rightarrow> app \<Rightarrow> OS \<Rightarrow> ResponseWriter \<Rightarrow> Request \<Rightarrow> ResponseWriter option" where
  "handler v n a os w r =
     (let w = Header_Set ''Cache-Control'' ''no-store'' w
      in if Method r = ''GET'' then
           (case handleGet v a os w r of
              (w', Some err) \<Rightarrow> Some (http_Error w' ''File not found'' 404)
            | (w', None) \<Rightarrow> Some w')
         else if Method r = ''POST'' \<and> v = Extended then
           (case handlePost n a os w r of
              None \<Rightarrow> None
            | Some (w', Some err) \<Rightarrow> Some (http_Error w' (''Error: '' @ Error err) 500)
            | Some (w', None) \<Rightarrow> Some w')
         else Some (http_Error w ''Method not allowed'' 405))"

section \<open>A file system given as a tree\<close>

text \<open>
  A file system without links: a regular file has a modification time and a
  content, a directory a modification time and its entries in the order in which
  the directory listing returns them.
\<close>

datatype node = RegFile time string | Directory time "(string \<times> node) list"

text \<open>Path elements between separators, empty ones dropped, as the kernel reads a path.\<close>

function elements :: "string \<Rightarrow> string list" where
  "elements [] = []"
| "elements (c # cs) =
     (if c = Separator then elements cs
      else (c # takeWhile (\<lambda>x. x \<noteq> Separator) cs) # elements (dropWhile (\<lambda>x. x \<noteq> Separator) cs))"
  by pat_completeness auto
termination
  by (relation "measure length") (auto simp: le_imp_less_Suc length_dropWhile_le)

text \<open>
  Walking a path: the state is the node reached and its ancestors, nearest first;
  \<^verbatim>\<open>..\<close> at the root stays at the root.
\<close>

fun walk :: "node \<times> node list \<Rightarrow> string list \<Rightarrow> errno + node \<times> node list" where
  "walk st [] = Inr st"
| "walk (nd, up) (e # es) =
     (case nd of
        RegFile t c \<Rightarrow> Inl ENOTDIR
      | Directory t ents \<Rightarrow>
          if e = ''.'' then walk (nd, up) es
          else if e = ''..'' then
            (case up of [] \<Rightarrow> walk (nd, up) es | p # ps \<Rightarrow> walk (p, ps) es)
          else
            (case map_of ents e of
               None \<Rightarrow> Inl ENOENT
             | Some ch \<Rightarrow> walk (ch, nd # up) es))"

text \<open>
  Resolution of a path by a process whose working directory is reached from the
  root by the elements \<open>cwd\<close>.
\<close>

definition lookup :: "node \<Rightarrow> string list \<Rightarrow> string \<Rightarrow> errno + node \<times> node list" where
  "lookup root cwd path =
     (if path = [] then Inl ENOENT
      else if hd path = Separator then walk (root, []) (elements path)
      else case walk (root, []) cwd of
             Inl e \<Rightarrow> Inl e
           | Inr st \<Rightarrow> walk st (elements path))"

fun node_info :: "string \<Rightarrow> node \<Rightarrow> FileInfo" where
  "node_info name (RegFile t c) =
     \<lparr>fi_Name = name, fi_Size = int (length c), fi_ModTime = t, fi_IsDir = False\<rparr>"
| "node_info name (Directory t ents) =
     \<lparr>fi_Name = name, fi_Size = 4096, fi_ModTime = t, fi_IsDir = True\<rparr>"

fun open_node :: "string \<Rightarrow> node \<Rightarrow> File" where
  "open_node path (RegFile t c) =
     \<lparr>f_Stat = Inr (node_info (Base path) (RegFile t c)), f_data = c, f_err = None\<rparr>"
| "open_node path (Directory t ents) =
     \<lparr>f_Stat = Inr (node_info (Base path) (Directory t ents)), f_data = [],
      f_err = Some (PathError ''read'' path EIO)\<rparr>"

definition tree_OS :: "node \<Rightarrow> string list \<Rightarrow> OS" where
  "tree_OS root cwd =
     \<lparr>os_Open = (\<lambda>path.
        case lookup root cwd path of
          Inl e \<Rightarrow> Inl (PathError ''open'' path e)
        | Inr (nd, up) \<Rightarrow> Inr (open_node path nd)),
      ioutil_ReadDir = (\<lambda>path.
        case lookup root cwd path of
          Inl e \<Rightarrow> Inl (PathError ''open'' path e)
        | Inr (RegFile t c, up) \<Rightarrow> Inl (PathError ''readdirent'' path ENOTDIR)
        | Inr (Directory t ents, up) \<Rightarrow> Inr (map (\<lambda>(name, ch). node_info name ch) ents))\<rparr>"


section \<open>An example installation\<close>

text \<open>
  A small tree: the served directory \<^verbatim>\<open>/srv/pub\<close> with two files and a
  subdirectory, and a file \<^verbatim>\<open>/srv/secret.txt\<close> beside it.
\<close>

definition example_time :: time where
  "example_time = \<lparr>year = 2020, month = 7, day = 4, hour = 9, minute = 5, second = 0\<rparr>"

definition example_pub :: node where
  "example_pub = Directory example_time
     [(''asdf'', RegFile example_time ''content-A''),
      (''sub'', Directory example_time [(''x'', RegFile example_time ''X'')]),
      (''qwer'', RegFile example_time ''content-B'')]"

definition example_root :: node where
  "example_root = Directory example_time
     [(''srv'', Directory example_time
        [(''pub'', example_pub),
         (''secret.txt'', RegFile example_time ''top secret'')])]"

definition example_OS :: OS where
  "example_OS = tree_OS example_root [''srv'']"

definition example_app :: "string \<Rightarrow> app" where
  "example_app d = \<lparr>app_dir = d, app_quiet = False, app_addr = ''localhost:9876''\<rparr>"

definition GET :: "string \<Rightarrow> Request" where
  "GET path = \<lparr>Method = ''GET'', URL_Path = path, ParseForm = Inr (\<lambda>k. [])\<rparr>"

definition POST :: "string \<Rightarrow> string list \<Rightarrow> Request" where
  "POST path files =
     \<lparr>Method = ''POST'', URL_Path = path,
      ParseForm = Inr (\<lambda>k. if k = ''files'' then files else [])\<rparr>"




text \<open>
  A string of the shape \<^verbatim>\<open>YYYY-MM-DD HH:MM:SS\<close>: writing \<^verbatim>\<open>0\<close> for every digit gives
  \<^verbatim>\<open>0000-00-00 00:00:00\<close>.
\<close>

definition shape_char :: "char \<Rightarrow> char" where
  "shape_char c = (if c \<in> set ''0123456789'' then CHR ''0'' else c)"


text \<open>
  A header that is set and, if the headers have been sent already, was sent with
  them.
\<close>

definition keeps :: "string \<Rightarrow> string \<Rightarrow> ResponseWriter \<Rightarrow> bool" where
  "keeps k v w = (rw_Header w k = Some v \<and>
      (case rw_sent w of None \<Rightarrow> True | Some (code, h) \<Rightarrow> h k = Some v))"

section \<open>What a directory holds\<close>

text \<open>
  A name that a directory entry can have and that a path keeps as it is: not empty,
  without a separator, and neither \<^verbatim>\<open>.\<close> nor \<^verbatim>\<open>..\<close>.
\<close>

definition name_ok :: "string \<Rightarrow> bool" where
  "name_ok n = (n \<noteq> [] \<and> Separator \<notin> set n \<and> n \<noteq> ''.'' \<and> n \<noteq> ''..'')"

text \<open>A tree in which every directory has entries of such names, no two the same.\<close>

fun wf_node :: "node \<Rightarrow> bool" where
  "wf_node (RegFile t c) = True"
| "wf_node (Directory t ents) =
     (distinct (map fst ents) \<and> list_all (\<lambda>e. name_ok (fst e) \<and> wf_node (snd e)) ents)"

text \<open>The number of directories above the deepest entry of a tree.\<close>

fun depth :: "node \<Rightarrow> nat" where
  "depth (RegFile t c) = 0"
| "depth (Directory t ents) = Suc (foldr (\<lambda>e m. max (depth (snd e)) m) ents 0)"

text \<open>
  The files of a tree, directories before what follows them in their parent and
  entries in the order of the listing, each file with the names that lead to it
  from the top, joined by separators, and its content.
\<close>

fun files_under :: "string list \<Rightarrow> node \<Rightarrow> (string \<times> string) list" where
  "files_under rel (RegFile t c) = [(strings_Join rel, c)]"
| "files_under rel (Directory t ents) =
     concat (map (\<lambda>e. files_under (rel @ [fst e]) (snd e)) ents)"

text \<open>
  A clean path: the names \<open>ns\<close> joined by separators, after a leading separator when
  the path is rooted; \<^verbatim>\<open>.\<close> for no name in a path that is not rooted.
\<close>

definition path_of :: "bool \<Rightarrow> string list \<Rightarrow> string" where
  "path_of rooted ns =
     (if rooted then Separator # strings_Join ns
      else if ns = [] then ''.'' else strings_Join ns)"



section \<open>Properties\<close>

subsection \<open>The Cache-Control header\<close>

lemma keeps_headers: "keeps k v w \<Longrightarrow> headers w k = Some v"
  by (auto simp: keeps_def headers_def split: option.splits)

lemma keeps_Header_Set: "keeps k v w \<Longrightarrow> k' \<noteq> k \<Longrightarrow> keeps k v (Header_Set k' v' w)"
  by (auto simp: keeps_def Header_Set_def split: option.splits)

lemma keeps_Header_Set_new: "rw_sent w = None \<Longrightarrow> keeps k v (Header_Set k v w)"
  by (auto simp: keeps_def Header_Set_def)

lemma keeps_WriteHeader: "keeps k v w \<Longrightarrow> keeps k v (WriteHeader code w)"
  by (auto simp: keeps_def WriteHeader_def split: option.splits)

lemma keeps_Write: "keeps k v w \<Longrightarrow> keeps k v (fst (Write c w))"
  using keeps_WriteHeader [of k v w 200]
  by (auto simp: keeps_def Write_def Let_def split: option.splits nat.splits)

lemma keeps_Write_all: "keeps k v w \<Longrightarrow> keeps k v (fst (Write_all ss w))"
proof (induction ss arbitrary: w)
  case Nil
  then show ?case by simp
next
  case (Cons s ss)
  from Cons.prems have k1: "keeps k v (fst (Write (Bytes s) w))" by (rule keeps_Write)
  show ?case
  proof (cases "Write (Bytes s) w")
    case (Pair w' e)
    with k1 have "keeps k v w'" by simp
    with Pair Cons.IH [of w'] show ?thesis by (cases e) auto
  qed
qed

lemma keeps_http_Error:
  "keeps k v w \<Longrightarrow> k \<noteq> ''Content-Type'' \<Longrightarrow> k \<noteq> ''X-Content-Type-Options''
     \<Longrightarrow> keeps k v (http_Error w msg code)"
  unfolding http_Error_def Let_def
  by (intro keeps_Write keeps_WriteHeader keeps_Header_Set) auto

lemma keeps_io_Copy: "keeps k v w \<Longrightarrow> keeps k v (fst (io_Copy w f))"
  using keeps_Write [of k v w "Bytes (f_data f)"]
  by (auto simp: io_Copy_def split: prod.splits option.splits)

lemma keeps_serveDir: "keeps k v w \<Longrightarrow> keeps k v (fst (serveDir vr w path files))"
  by (simp add: serveDir_def Execute_def Let_def keeps_Write_all)

lemma keeps_handleGet: "keeps k v w \<Longrightarrow> keeps k v (fst (handleGet vr a os w r))"
  by (auto simp: handleGet_def Let_def keeps_serveDir keeps_io_Copy split: sum.splits)

lemma keeps_archive:
  "keeps k v w \<Longrightarrow> archive n os w d names = Some (w', e) \<Longrightarrow> keeps k v w'"
  using keeps_Write [of k v w]
  by (auto simp: archive_def zip_Close_def Let_def split: option.splits prod.splits if_splits)

lemma keeps_handlePost:
  "keeps k v w \<Longrightarrow> k \<noteq> ''Content-Disposition'' \<Longrightarrow> handlePost n a os w r = Some (w', e)
     \<Longrightarrow> keeps k v w'"
  by (auto simp: handlePost_def Let_def split: sum.splits
      dest!: keeps_archive [rotated] intro: keeps_Header_Set)

text \<open>
  For GET, for the methods that are not allowed, and for every method of the revision
  without POST, the handler returns whatever the file system is like.
\<close>

lemma handler_returns:
  "Method r \<noteq> ''POST'' \<or> vr = Basic \<Longrightarrow> handler vr n a os w r \<noteq> None"
  by (auto simp: handler_def Let_def split: prod.splits option.splits)

text \<open>
  C6. Every response of the handler carries \<^verbatim>\<open>Cache-Control: no-store\<close>: for both
  revisions, every method and path, every file system and every state of the
  connection, whether the request succeeds or fails. The handler is given a response
  writer on which nothing has been sent yet; the header is among those sent with the
  status line. A POST returns when the walk of the archive does (the bound \<open>n\<close>); every
  other request returns.
\<close>

theorem cache_control_always:
  assumes fresh: "rw_sent w = None"
  shows "(Method r \<noteq> ''POST'' \<or> vr = Basic \<longrightarrow> handler vr n a os w r \<noteq> None) \<and>
         (\<forall>w'. handler vr n a os w r = Some w'
            \<longrightarrow> headers w' ''Cache-Control'' = Some ''no-store'')"
proof (intro conjI allI impI)
  assume "Method r \<noteq> ''POST'' \<or> vr = Basic"
  then show "handler vr n a os w r \<noteq> None" by (rule handler_returns)
next
  fix w'
  assume h: "handler vr n a os w r = Some w'"
  let ?w = "Header_Set ''Cache-Control'' ''no-store'' w"
  have k0: "keeps ''Cache-Control'' ''no-store'' ?w"
    using fresh by (rule keeps_Header_Set_new)
  have "keeps ''Cache-Control'' ''no-store'' w'"
  proof (cases "Method r = ''GET''")
    case True
    have kg: "keeps ''Cache-Control'' ''no-store'' (fst (handleGet vr a os ?w r))"
      using k0 by (rule keeps_handleGet)
    show ?thesis
    proof (cases "handleGet vr a os ?w r")
      case (Pair w1 e)
      with kg have k1: "keeps ''Cache-Control'' ''no-store'' w1" by simp
      show ?thesis
      proof (cases e)
        case None
        with h True Pair k1 show ?thesis by (simp add: handler_def Let_def)
      next
        case (Some err)
        have "keeps ''Cache-Control'' ''no-store'' (http_Error w1 ''File not found'' 404)"
          using k1 by (rule keeps_http_Error) simp_all
        with h True Pair Some show ?thesis by (simp add: handler_def Let_def)
      qed
    qed
  next
    case False
    show ?thesis
    proof (cases "Method r = ''POST'' \<and> vr = Extended")
      case True
      with h False obtain w1 e where p: "handlePost n a os ?w r = Some (w1, e)"
        and w': "w' = (case e of None \<Rightarrow> w1
                       | Some err \<Rightarrow> http_Error w1 (''Error: '' @ Error err) 500)"
        by (auto simp: handler_def Let_def split: option.splits)
      have k1: "keeps ''Cache-Control'' ''no-store'' w1"
        using k0 _ p by (rule keeps_handlePost) simp
      show ?thesis
      proof (cases e)
        case None
        with w' k1 show ?thesis by simp
      next
        case (Some err)
        have "keeps ''Cache-Control'' ''no-store''
                (http_Error w1 (''Error: '' @ Error err) 500)"
          using k1 by (rule keeps_http_Error) simp_all
        with w' Some show ?thesis by simp
      qed
    next
      case F2: False
      have "keeps ''Cache-Control'' ''no-store'' (http_Error ?w ''Method not allowed'' 405)"
        using k0 by (rule keeps_http_Error) simp_all
      with h False F2 show ?thesis by (auto simp: handler_def Let_def)
    qed
  qed
  then show "headers w' ''Cache-Control'' = Some ''no-store''" by (rule keeps_headers)
qed

theorem cache_control_always_witness:
  "rw_sent (NewResponse None) = None \<and>
   map_option (\<lambda>w'. headers w' ''Cache-Control'')
     (handler Extended 3 (example_app ''/srv/pub'') example_OS (NewResponse None)
        (POST ''/nowhere'' [])) = Some (Some ''no-store'') \<and>
   map_option (\<lambda>w'. (status w', headers w' ''Cache-Control''))
     (handler Basic 0 (example_app ''/srv/pub'') example_OS (NewResponse None)
        (GET ''/nowhere'')) = Some (404, Some ''no-store'')"
proof -
  have f: "rw_sent (NewResponse None) = None" by (simp add: NewResponse_def)
  have a: "handler Extended 3 (example_app ''/srv/pub'') example_OS (NewResponse None)
        (POST ''/nowhere'' []) \<noteq> None" by code_simp
  have b: "map_option status (handler Basic 0 (example_app ''/srv/pub'') example_OS (NewResponse None)
        (GET ''/nowhere'')) = Some 404" by code_simp
  from a b f
    cache_control_always [OF f, of "POST ''/nowhere'' []" Extended 3 "example_app ''/srv/pub''" example_OS]
    cache_control_always [OF f, of "GET ''/nowhere''" Basic 0 "example_app ''/srv/pub''" example_OS]
  show ?thesis by auto
qed

subsection \<open>Methods that are not allowed\<close>

lemma status_http_Error: "rw_sent w = None \<Longrightarrow> status (http_Error w msg code) = code"
  by (auto simp: http_Error_def status_def Header_Set_def WriteHeader_def Write_def Let_def
      split: option.splits nat.splits)

text \<open>
  C7. A request whose method is not GET and, in the revision with archives, not POST
  is answered with status 405, whatever its path.
\<close>

theorem method_not_allowed:
  assumes "rw_sent w = None"
    and "Method r \<noteq> ''GET''"
    and "vr = Extended \<longrightarrow> Method r \<noteq> ''POST''"
  shows "\<exists>w'. handler vr n a os w r = Some w' \<and> status w' = 405"
proof -
  have "rw_sent (Header_Set ''Cache-Control'' ''no-store'' w) = None"
    using assms(1) by (simp add: Header_Set_def)
  then have "status (http_Error (Header_Set ''Cache-Control'' ''no-store'' w)
               ''Method not allowed'' 405) = 405"
    by (rule status_http_Error)
  moreover have "\<not> (Method r = ''POST'' \<and> vr = Extended)"
    using assms(3) by blast
  ultimately show ?thesis using assms(2) by (auto simp: handler_def Let_def)
qed

theorem method_not_allowed_witness:
  "map_option status (handler Extended 0 (example_app ''.'') example_OS (NewResponse None)
      \<lparr>Method = ''DELETE'', URL_Path = ''/asdf'', ParseForm = Inr (\<lambda>k. [])\<rparr>) = Some 405 \<and>
   map_option status (handler Basic 0 (example_app ''.'') example_OS (NewResponse None)
      (POST ''/'' [])) = Some 405"
proof -
  have f: "rw_sent (NewResponse None) = None" by (simp add: NewResponse_def)
  from method_not_allowed [OF f, of "\<lparr>Method = ''DELETE'', URL_Path = ''/asdf'', ParseForm = Inr (\<lambda>k. [])\<rparr>"
      Extended 0 "example_app ''.''" example_OS]
    method_not_allowed [OF f, of "POST ''/'' []" Basic 0 "example_app ''.''" example_OS]
  show ?thesis by (auto simp: POST_def)
qed

subsection \<open>Failures of GET\<close>

lemma status_Write: "status (fst (Write c w)) = (case rw_sent w of None \<Rightarrow> 200 | Some (code, h) \<Rightarrow> code)"
  by (auto simp: status_def Write_def WriteHeader_def Let_def split: option.splits nat.splits)





subsection \<open>The error of the listing\<close>

lemma sent_Write: "rw_sent w = Some s \<Longrightarrow> rw_sent (fst (Write c w)) = Some s"
  by (auto simp: Write_def WriteHeader_def Let_def split: option.splits nat.splits)

lemma sent_Write_fresh: "rw_sent w = None \<Longrightarrow> rw_sent (fst (Write c w)) = Some (200, rw_Header w)"
  by (auto simp: Write_def WriteHeader_def Let_def split: option.splits nat.splits)

lemma sent_Write_all: "rw_sent w = Some s \<Longrightarrow> rw_sent (fst (Write_all ss w)) = Some s"
proof (induction ss arbitrary: w)
  case Nil
  then show ?case by simp
next
  case (Cons a ss)
  obtain w1 e where w1: "Write (Bytes a) w = (w1, e)" by (cases "Write (Bytes a) w")
  with sent_Write [OF Cons.prems, of "Bytes a"] have "rw_sent w1 = Some s" by simp
  with Cons.IH [of w1] w1 show ?case by (cases e) auto
qed

lemma status_Write_all:
  assumes "ss \<noteq> []" and "rw_sent w = None"
  shows "status (fst (Write_all ss w)) = 200"
proof -
  from assms(1) obtain a ss' where ss: "ss = a # ss'" by (cases ss) auto
  obtain w1 e where w1: "Write (Bytes a) w = (w1, e)" by (cases "Write (Bytes a) w")
  with sent_Write_fresh [OF assms(2), of "Bytes a"]
  have s1: "rw_sent w1 = Some (200, rw_Header w)" by simp
  from sent_Write_all [OF s1, of ss'] w1 ss s1 show ?thesis
    by (cases e) (auto simp: status_def)
qed

lemma status_serveDir:
  "rw_sent w = None \<Longrightarrow> status (fst (serveDir vr w path files)) = 200"
  unfolding serveDir_def Execute_def Let_def
  by (rule status_Write_all) (simp_all add: listTemplate_def)

text \<open>
  C9. When the path of a GET request opens as a directory whose entries are read,
  \<^verbatim>\<open>handleGet\<close> returns nil whatever \<^verbatim>\<open>serveDir\<close> returns, so the handler sends no
  404: the response has status 200 also when writing the page fails. The witness is
  a connection that accepts three writes of the page and then fails.
\<close>

theorem listing_error_discarded:
  assumes "os_Open os (Join [app_dir a, Clean (URL_Path r)]) = Inr f"
    and "f_Stat f = Inr fi" and "fi_IsDir fi"
    and "ioutil_ReadDir os (Join [app_dir a, Clean (URL_Path r)]) = Inr files"
  shows "snd (handleGet vr a os w r) = None \<and>
         (Method r = ''GET'' \<and> rw_sent w = None
            \<longrightarrow> (\<exists>w'. handler vr n a os w r = Some w' \<and> status w' = 200))"
proof -
  have g: "handleGet vr a os w r = (fst (serveDir vr w (Clean (URL_Path r)) files), None)" for w
    using assms by (simp add: handleGet_def Let_def)
  have "status (fst (serveDir vr (Header_Set ''Cache-Control'' ''no-store'' w)
                  (Clean (URL_Path r)) files)) = 200" if "rw_sent w = None"
    using that by (intro status_serveDir) (simp add: Header_Set_def)
  with g show ?thesis by (simp add: handler_def Let_def)
qed

theorem listing_error_discarded_witness:
  "snd (serveDir Extended (Header_Set ''Cache-Control'' ''no-store'' (NewResponse (Some 3))) ''/sub''
          [node_info ''x'' (RegFile example_time ''X'')]) = Some ErrWrite \<and>
   snd (handleGet Extended (example_app ''/srv/pub'') example_OS
          (Header_Set ''Cache-Control'' ''no-store'' (NewResponse (Some 3))) (GET ''/sub'')) = None \<and>
   map_option status (handler Extended 0 (example_app ''/srv/pub'') example_OS
          (NewResponse (Some 3)) (GET ''/sub'')) = Some 200"
proof -
  have 0: "snd (serveDir Extended (Header_Set ''Cache-Control'' ''no-store'' (NewResponse (Some 3))) ''/sub''
          [node_info ''x'' (RegFile example_time ''X'')]) = Some ErrWrite"
    by code_simp
  have 1: "os_Open example_OS (Join [app_dir (example_app ''/srv/pub''), Clean (URL_Path (GET ''/sub''))])
             = Inr (open_node ''/srv/pub/sub'' (Directory example_time [(''x'', RegFile example_time ''X'')]))"
    by code_simp
  have 2: "f_Stat (open_node ''/srv/pub/sub'' (Directory example_time [(''x'', RegFile example_time ''X'')]))
             = Inr (node_info ''sub'' (Directory example_time [(''x'', RegFile example_time ''X'')]))"
    by code_simp
  have 3: "fi_IsDir (node_info ''sub'' (Directory example_time [(''x'', RegFile example_time ''X'')]))"
    by simp
  have 4: "ioutil_ReadDir example_OS (Join [app_dir (example_app ''/srv/pub''), Clean (URL_Path (GET ''/sub''))])
             = Inr [node_info ''x'' (RegFile example_time ''X'')]"
    by code_simp
  have 5: "Method (GET ''/sub'') = ''GET'' \<and> rw_sent (NewResponse (Some 3)) = None"
    by (simp add: GET_def NewResponse_def)
  from listing_error_discarded [OF 1 2 3 4, of Extended "Header_Set ''Cache-Control'' ''no-store'' (NewResponse (Some 3))" 0]
    listing_error_discarded [OF 1 2 3 4, of Extended "NewResponse (Some 3)" 0] 0 5
  show ?thesis by auto
qed

subsection \<open>Evaluating the example\<close>

text \<open>
  Requests on the example are evaluated in steps: the paths and the lookups first,
  each on its own, then the handler with these results.
\<close>

lemma addToArchive_file:
  assumes "Rel d path = Inr rel" and "os_Open os path = Inr f" and "f_Stat f = Inr fi"
    and "\<not> fi_IsDir fi" and "length rel \<le> 65535"
  shows "addToArchive (Suc n) os zw d path
           = Some (io_Copy_zip (zw\<lparr>zw_files := zw_files zw @ [(rel, [])]\<rparr>) f)"
  using assms by (simp add: addToArchive.simps zip_Create_def)

lemma ex_Join_root: "Join [''/srv/pub'', Clean ''/''] = ''/srv/pub''"
  by code_simp






lemma ex_dirname_pub: \<open>dirname ''/srv/pub'' = ''pub''\<close>
  by code_simp


subsection \<open>The name of the archive\<close>




subsection \<open>Paths that leave the served directory\<close>


lemma ex_lookup_secret: "lookup example_root [''srv''] ''/srv/secret.txt''
   = Inr (RegFile example_time ''top secret'',
          [Directory example_time [(''pub'', example_pub), (''secret.txt'', RegFile example_time ''top secret'')],
           example_root])"
  by code_simp

lemma ex_Open_secret: "os_Open example_OS ''/srv/secret.txt''
   = Inr (open_node ''/srv/secret.txt'' (RegFile example_time ''top secret''))"
  by (simp add: example_OS_def tree_OS_def ex_lookup_secret)


lemma ex_elements_dotdot: "''..'' \<in> set (elements ''../secret.txt'')"
  by code_simp

lemma ex_outside: "\<not> prefix (elements ''/srv/pub'') (elements ''/srv/secret.txt'')"
  by code_simp


text \<open>
  The request path of the example does not begin with a slash. \<^verbatim>\<open>Clean\<close> drops the
  \<^verbatim>\<open>..\<close> elements that begin a rooted path, so the same elements after a slash stay
  inside the served directory.
\<close>

lemma ex_Join_rooted: "Join [''/srv/pub'', Clean ''/../secret.txt''] = ''/srv/pub/secret.txt''"
  by code_simp

subsection \<open>Selected names that leave the base directory\<close>

lemma ex_Join_name: "Join [''/srv/pub'', ''../secret.txt''] = ''/srv/secret.txt''"
  by code_simp

lemma ex_Rel_secret: "Rel ''/srv/pub'' ''/srv/secret.txt'' = Inr ''../secret.txt''"
  by code_simp

lemma ex_add_secret:
  "addToArchive (Suc n) example_OS zip_NewWriter ''/srv/pub'' ''/srv/secret.txt''
     = Some (\<lparr>zw_files = [(''../secret.txt'', ''top secret'')]\<rparr>, None)"
  by (subst addToArchive_file [OF ex_Rel_secret ex_Open_secret,
        of "node_info (Base ''/srv/secret.txt'') (RegFile example_time ''top secret'')"])
     (simp_all add: io_Copy_zip_def zip_NewWriter_def)

lemma ex_post_secret:
  \<open>handler Extended (Suc n) (example_app ''/srv/pub'') example_OS (NewResponse None)
     (POST ''/'' [''../secret.txt''])
   = Some \<lparr>rw_Header = [''Cache-Control'' \<mapsto> ''no-store'',
                          ''Content-Disposition'' \<mapsto> ''attachment; filename="pub.zip"''],
            rw_sent = Some (200, [''Cache-Control'' \<mapsto> ''no-store'',
                          ''Content-Disposition'' \<mapsto> ''attachment; filename="pub.zip"'']),
            rw_body = [ZipStream [(''../secret.txt'', ''top secret'')]], rw_budget = None\<rparr>\<close>
  by (simp add: handler_def handlePost_def POST_def example_app_def ex_Join_root ex_dirname_pub
      archive_def ex_Join_name ex_add_secret zip_Close_def Write_def WriteHeader_def Header_Set_def
      NewResponse_def Let_def)

text \<open>
  C10. A selected name of a POST is joined onto the base directory as it is.
  Serving \<^verbatim>\<open>/srv/pub\<close>, a POST to \<^verbatim>\<open>/\<close> that selects \<^verbatim>\<open>../secret.txt\<close> yields a zip
  whose one entry holds the content of \<^verbatim>\<open>/srv/secret.txt\<close>, a file outside the base
  directory, under a name that begins with \<^verbatim>\<open>../\<close>.
\<close>

theorem selected_name_escapes:
  "\<exists>name entry. ''..'' \<in> set (elements name)
     \<and> \<not> prefix (elements (Join [app_dir (example_app ''/srv/pub''), Clean ''/'']))
            (elements (Join [Join [app_dir (example_app ''/srv/pub''), Clean ''/''], name]))
     \<and> prefix ''../'' entry
     \<and> map_option rw_body
          (handler Extended (Suc n) (example_app ''/srv/pub'') example_OS (NewResponse None)
             (POST ''/'' [name]))
        = Some [ZipStream [(entry, ''top secret'')]]"
proof (intro exI [of _ "''../secret.txt''"] conjI)
  show "''..'' \<in> set (elements ''../secret.txt'')" by (rule ex_elements_dotdot)
  show "\<not> prefix (elements (Join [app_dir (example_app ''/srv/pub''), Clean ''/'']))
            (elements (Join [Join [app_dir (example_app ''/srv/pub''), Clean ''/''], ''../secret.txt'']))"
    using ex_outside by (simp add: example_app_def ex_Join_root ex_Join_name)
  show "prefix ''../'' ''../secret.txt''" by simp
  show "map_option rw_body
          (handler Extended (Suc n) (example_app ''/srv/pub'') example_OS (NewResponse None)
             (POST ''/'' [''../secret.txt'']))
        = Some [ZipStream [(''../secret.txt'', ''top secret'')]]"
    by (simp add: ex_post_secret)
qed

subsection \<open>The listing page\<close>


lemma shape_char_other [simp]:
  "shape_char (CHR ''0'') = CHR ''0''" "shape_char (CHR ''-'') = CHR ''-''"
  "shape_char (CHR '' '') = CHR '' ''" "shape_char (CHR '':'') = CHR '':''"
  by (simp_all add: shape_char_def)





lemma Write_unlimited:
  "rw_budget w = None \<Longrightarrow>
     snd (Write c w) = None \<and> rw_body (fst (Write c w)) = rw_body w @ [c]
       \<and> rw_budget (fst (Write c w)) = None"
  by (auto simp: Write_def WriteHeader_def Let_def split: option.splits)

lemma Write_all_unlimited:
  "rw_budget w = None \<Longrightarrow>
     snd (Write_all ss w) = None \<and> rw_body (fst (Write_all ss w)) = rw_body w @ map Bytes ss
       \<and> rw_budget (fst (Write_all ss w)) = None"
proof (induction ss arbitrary: w)
  case Nil
  then show ?case by simp
next
  case (Cons s ss)
  obtain w1 e where w1: "Write (Bytes s) w = (w1, e)" by (cases "Write (Bytes s) w")
  with Write_unlimited [OF Cons.prems, of "Bytes s"]
  have e: "e = None" and b: "rw_body w1 = rw_body w @ [Bytes s]" and u: "rw_budget w1 = None"
    by simp_all
  from Cons.IH [OF u] w1 e b show ?case by simp
qed

lemma body_text_Bytes: "rw_body w' = rw_body w @ map Bytes ss \<Longrightarrow> body_text w' = body_text w @ concat ss"
  by (simp add: body_text_def comp_def)

lemma foldl_snoc: "foldl (\<lambda>fs f. fs @ [g f]) acc xs = acc @ map g xs"
  by (induction xs arbitrary: acc) simp_all

lemma concat_concat_map: "concat (concat (map f xs)) = concat (map (\<lambda>x. concat (f x)) xs)"
  by (induction xs) simp_all

lemma serveDir_unlimited:
  assumes "rw_budget w = None"
  shows "snd (serveDir vr w p es) = None \<and>
         body_text (fst (serveDir vr w p es)) = body_text w @
           tmpl_head vr @ p @ tmpl_style vr @ p @ tmpl_table vr
           @ concat (map (\<lambda>e. concat (tmpl_row vr
                \<lparr>Path = Join [p, fi_Name e], Name = fi_Name e, Size = fi_Size e,
                  ModTime = Format (fi_ModTime e), IsDir = fi_IsDir e\<rparr>)) es)
           @ tmpl_foot vr"
proof -
  define L where "L = listTemplate vr p (map (\<lambda>e. \<lparr>Path = Join [p, fi_Name e],
      Name = fi_Name e, Size = fi_Size e, ModTime = Format (fi_ModTime e), IsDir = fi_IsDir e\<rparr>) es)"
  have s: "serveDir vr w p es = Write_all L w"
    by (simp add: serveDir_def Execute_def Let_def foldl_snoc L_def)
  from Write_all_unlimited [OF assms, of L]
  have n: "snd (Write_all L w) = None"
    and b: "rw_body (fst (Write_all L w)) = rw_body w @ map Bytes L"
    by simp_all
  have t: "body_text (fst (Write_all L w)) = body_text w @ concat L"
    using b by (rule body_text_Bytes)
  have c: "concat L = tmpl_head vr @ p @ tmpl_style vr @ p @ tmpl_table vr
           @ concat (map (\<lambda>e. concat (tmpl_row vr
                \<lparr>Path = Join [p, fi_Name e], Name = fi_Name e, Size = fi_Size e,
                  ModTime = Format (fi_ModTime e), IsDir = fi_IsDir e\<rparr>)) es)
           @ tmpl_foot vr"
    by (simp add: L_def listTemplate_def comp_def concat_concat_map)
  show ?thesis by (simp only: s n t c)
qed










subsection \<open>Clean paths\<close>

text \<open>
  On the paths \<^const>\<open>path_of\<close> the functions of the path library do what their
  documentation says: cleaning changes nothing, joining a name appends it, and the
  path relative to a directory above is the names in between.
\<close>

lemma strings_Join_Cons: "strings_Join (n # ns) = n @ concat (map ((#) Separator) ns)"
  by (induction ns arbitrary: n) (case_tac ns; simp)+

lemma name_ok_takeWhile:
  "Separator \<notin> set n \<Longrightarrow> rest = [] \<or> hd rest = Separator \<Longrightarrow>
     takeWhile (\<lambda>x. x \<noteq> Separator) (n @ rest) = n \<and> dropWhile (\<lambda>x. x \<noteq> Separator) (n @ rest) = rest"
  by (cases rest) (auto simp: takeWhile_append2 dropWhile_append2 takeWhile_tail dropWhile_append3)

lemma clean_loop_name:
  assumes "name_ok n" and "rest = [] \<or> hd rest = Separator"
  shows "clean_loop rooted (n @ rest) out dd =
         clean_loop rooted rest
           ((if rooted \<and> length out \<noteq> 1 \<or> \<not> rooted \<and> length out \<noteq> 0
             then out @ [Separator] else out) @ n) dd"
proof -
  from assms(1) obtain c cs where n: "n = c # cs" by (cases n) (auto simp: name_ok_def)
  from assms(1) n have c: "c \<noteq> Separator" and cs: "Separator \<notin> set cs" by (auto simp: name_ok_def)
  have tw: "takeWhile (\<lambda>x. x \<noteq> Separator) (cs @ rest) = cs"
    and dw: "dropWhile (\<lambda>x. x \<noteq> Separator) (cs @ rest) = rest"
    using name_ok_takeWhile [OF cs assms(2)] by simp_all
  have dot: "\<not> (c = CHR ''.'' \<and> (cs @ rest = [] \<or> hd (cs @ rest) = Separator))"
    using assms n cs by (cases cs) (auto simp: name_ok_def)
  have dotdot: "\<not> (c = CHR ''.'' \<and> hd (cs @ rest) = CHR ''.'' \<and>
                   (tl (cs @ rest) = [] \<or> hd (tl (cs @ rest)) = Separator))"
  proof (cases cs)
    case Nil
    with assms n show ?thesis by (auto simp: name_ok_def)
  next
    case (Cons d ds)
    with assms n cs show ?thesis by (cases ds) (auto simp: name_ok_def)
  qed
  show ?thesis
    unfolding n append_Cons
    by (subst clean_loop.simps) (simp only: c dot dotdot tw dw if_False Let_def)
qed

lemma clean_loop_names:
  "list_all name_ok ns \<Longrightarrow> out \<noteq> [] \<Longrightarrow> (rooted \<longrightarrow> length out \<noteq> 1) \<Longrightarrow>
     clean_loop rooted (concat (map ((#) Separator) ns)) out dd
       = out @ concat (map ((#) Separator) ns)"
proof (induction ns arbitrary: out)
  case Nil
  then show ?case by simp
next
  case (Cons n ns)
  have rest: "concat (map ((#) Separator) ns) = [] \<or> hd (concat (map ((#) Separator) ns)) = Separator"
    by (cases ns) auto
  from Cons.prems have n: "name_ok n" and ns: "list_all name_ok ns" by auto
  from n have ne: "n \<noteq> []" by (auto simp: name_ok_def)
  have "clean_loop rooted (concat (map ((#) Separator) (n # ns))) out dd
        = clean_loop rooted (n @ concat (map ((#) Separator) ns)) out dd"
    by simp
  also have "\<dots> = clean_loop rooted (concat (map ((#) Separator) ns)) ((out @ [Separator]) @ n) dd"
    using Cons.prems by (subst clean_loop_name [OF n rest]) auto
  also have "\<dots> = ((out @ [Separator]) @ n) @ concat (map ((#) Separator) ns)"
    using ne by (intro Cons.IH [OF ns]) auto
  finally show ?case by simp
qed

lemma Clean_path_of:
  assumes "list_all name_ok ns"
  shows "Clean (path_of rooted ns) = path_of rooted ns"
proof (cases ns)
  case Nil
  then show ?thesis by (simp add: Clean_def path_of_def)
next
  case (Cons n ms)
  from assms Cons have n: "name_ok n" and ms: "list_all name_ok ms" by auto
  from n have ne: "n \<noteq> []" "hd n \<noteq> Separator" by (cases n; auto simp: name_ok_def)+
  have rest: "concat (map ((#) Separator) ms) = [] \<or> hd (concat (map ((#) Separator) ms)) = Separator"
    by (cases ms) auto
  show ?thesis
  proof (cases rooted)
    case True
    have "clean_loop True (n @ concat (map ((#) Separator) ms)) [Separator] 1
          = [Separator] @ n @ concat (map ((#) Separator) ms)"
      using ne by (subst clean_loop_name [OF n rest]) (simp add: clean_loop_names [OF ms])
    with True Cons show ?thesis
      by (simp add: Clean_def path_of_def strings_Join_Cons del: strings_Join.simps)
  next
    case False
    have "clean_loop False (n @ concat (map ((#) Separator) ms)) [] 0
          = n @ concat (map ((#) Separator) ms)"
      using ne by (subst clean_loop_name [OF n rest]) (simp add: clean_loop_names [OF ms])
    with False Cons ne show ?thesis
      by (simp add: Clean_def path_of_def strings_Join_Cons del: strings_Join.simps)
  qed
qed

lemma path_of_snoc:
  assumes "list_all name_ok ns" and "name_ok n"
  shows "Clean (path_of rooted ns @ Separator # n) = path_of rooted (ns @ [n])"
proof (cases ns)
  case Nil
  from assms(2) have ne: "n \<noteq> []" by (auto simp: name_ok_def)
  have a: "clean_loop True n [Separator] dd = Separator # n" for dd
    using clean_loop_name [OF assms(2), of "[]" True "[Separator]" dd] by simp
  have b: "clean_loop False n [] dd = n" for dd
    using clean_loop_name [OF assms(2), of "[]" False "[]" dd] by simp
  from Nil ne show ?thesis
    by (cases rooted) (simp_all add: Clean_def path_of_def a b)
next
  case (Cons m ms)
  from assms have all: "list_all name_ok (ns @ [n])" by simp
  have "path_of rooted ns @ Separator # n = path_of rooted (ns @ [n])"
    using Cons by (simp add: path_of_def strings_Join_Cons del: strings_Join.simps)
  then show ?thesis using Clean_path_of [OF all] by simp
qed

lemma path_of_nonempty: "list_all name_ok ns \<Longrightarrow> path_of rooted ns \<noteq> []"
  by (cases ns) (auto simp: path_of_def strings_Join_Cons name_ok_def simp del: strings_Join.simps)

lemma Join_path_of:
  assumes "list_all name_ok ns" and "name_ok n"
  shows "Join [path_of rooted ns, n] = path_of rooted (ns @ [n])"
  using path_of_snoc [OF assms, of rooted] path_of_nonempty [OF assms(1), of rooted]
  by (simp add: Join_def)

lemma rel_loop_names:
  "list_all name_ok ds \<Longrightarrow> ns \<noteq> [] \<Longrightarrow>
     rel_loop (strings_Join ds) (strings_Join (ds @ ns)) = ([], [], strings_Join ns)"
proof (induction ds)
  case Nil
  then show ?case by (subst rel_loop.simps) simp
next
  case (Cons d ds)
  from Cons.prems have ds: "list_all name_ok ds" by simp
  from Cons.prems have d: "Separator \<notin> set d" "d \<noteq> []" by (simp_all add: name_ok_def)
  obtain m ms where dn: "ds @ ns = m # ms" using Cons.prems(2) by (cases "ds @ ns") auto
  have targ: "strings_Join ((d # ds) @ ns) = d @ Separator # strings_Join (ds @ ns)"
    by (simp add: dn)
  have te: "takeWhile (\<lambda>x. x \<noteq> Separator) (d @ Separator # strings_Join (ds @ ns)) = d"
    using d by (auto simp: takeWhile_tail)
  show ?case
  proof (cases ds)
    case Nil
    have be: "takeWhile (\<lambda>x. x \<noteq> Separator) d = d" using d by auto
    have "rel_loop d (d @ Separator # strings_Join ns) = rel_loop [] (strings_Join ns)"
      using d Cons.prems(2) by (subst rel_loop.simps) (auto simp: be takeWhile_tail Let_def)
    also have "\<dots> = ([], [], strings_Join ns)" by (subst rel_loop.simps) simp
    finally show ?thesis using Nil targ by simp
  next
    case (Cons e es)
    have base: "strings_Join (d # ds) = d @ Separator # strings_Join ds" using Cons by simp
    have be: "takeWhile (\<lambda>x. x \<noteq> Separator) (d @ Separator # strings_Join ds) = d"
      using d by (auto simp: takeWhile_tail)
    have "rel_loop (d @ Separator # strings_Join ds) (d @ Separator # strings_Join (ds @ ns))
          = rel_loop (strings_Join ds) (strings_Join (ds @ ns))"
      using d by (subst rel_loop.simps) (simp add: be te Let_def)
    then show ?thesis using Cons.IH [OF ds Cons.prems(2)] base targ by simp
  qed
qed

lemma path_of_append_neq:
  assumes "list_all name_ok ds" "list_all name_ok ns" "ns \<noteq> []"
  shows "path_of rooted (ds @ ns) \<noteq> path_of rooted ds"
proof -
  obtain n ms where ns: "ns = n # ms" using assms(3) by (cases ns) auto
  with assms(2) have "n \<noteq> []" by (auto simp: name_ok_def)
  have len: "length (strings_Join (ds @ ns)) > length (strings_Join ds)" if "ds \<noteq> []"
  proof -
    from that obtain d es where "ds = d # es" by (cases ds) auto
    then show ?thesis using ns by (simp add: strings_Join_Cons del: strings_Join.simps)
  qed
  show ?thesis
  proof (cases ds)
    case Nil
    with ns \<open>n \<noteq> []\<close> assms(2) show ?thesis
      by (cases n) (auto simp: path_of_def strings_Join_Cons name_ok_def simp del: strings_Join.simps(2,3))
  next
    case (Cons d es)
    with len have "length (strings_Join (ds @ ns)) > length (strings_Join ds)" by simp
    then show ?thesis using Cons by (auto simp: path_of_def)
  qed
qed

lemma Rel_path_of:
  assumes ds: "list_all name_ok ds" and ns: "list_all name_ok ns"
  shows "Rel (path_of rooted ds) (path_of rooted (ds @ ns))
         = Inr (if ns = [] then ''.'' else strings_Join ns)"
proof (cases "ns = []")
  case True
  then show ?thesis by (simp add: Rel_def)
next
  case False
  from ds ns have all: "list_all name_ok (ds @ ns)" by simp
  have cb: "Clean (path_of rooted ds) = path_of rooted ds" by (rule Clean_path_of [OF ds])
  have ct: "Clean (path_of rooted (ds @ ns)) = path_of rooted (ds @ ns)"
    by (rule Clean_path_of [OF all])
  have neq: "path_of rooted (ds @ ns) \<noteq> path_of rooted ds"
    by (rule path_of_append_neq [OF ds ns False])
  have hd_name: "hd (strings_Join xs) \<noteq> Separator \<and> strings_Join xs \<noteq> [] \<and> strings_Join xs \<noteq> ''.''"
    if "list_all name_ok xs" "xs \<noteq> []" for xs
  proof -
    from that obtain x ys where xs: "xs = x # ys" by (cases xs) auto
    with that have x: "name_ok x" by simp
    then obtain c cs where "x = c # cs" "c \<noteq> Separator" by (cases x) (auto simp: name_ok_def)
    with x xs show ?thesis
      by (cases ys) (auto simp: strings_Join_Cons name_ok_def simp del: strings_Join.simps)
  qed
  show ?thesis
  proof (cases rooted)
    case True
    have "rel_loop (Separator # strings_Join ds) (Separator # strings_Join (ds @ ns))
          = rel_loop (strings_Join ds) (strings_Join (ds @ ns))"
      by (subst rel_loop.simps) simp
    then have "rel_loop (Separator # strings_Join ds) (Separator # strings_Join (ds @ ns))
          = ([], [], strings_Join ns)"
      using rel_loop_names [OF ds False] by simp
    with True False neq cb ct show ?thesis
      unfolding Rel_def by (simp add: path_of_def Let_def)
  next
    case nr: False
    show ?thesis
    proof (cases "ds = []")
      case True
      have "rel_loop [] (strings_Join ns) = ([], [], strings_Join ns)"
        by (subst rel_loop.simps) simp
      with True nr False neq cb ct hd_name [OF ns False] show ?thesis
        unfolding Rel_def by (simp add: path_of_def Let_def)
    next
      case dne: False
      from dne have ane: "ds @ ns \<noteq> []" by simp
      from nr False dne neq cb ct hd_name [OF ds dne] hd_name [OF all ane]
        rel_loop_names [OF ds False] show ?thesis
        unfolding Rel_def by (simp add: path_of_def Let_def)
    qed
  qed
qed

subsection \<open>Clean paths in the tree\<close>

lemma elements_name:
  assumes "n \<noteq> []" "Separator \<notin> set n" "rest = [] \<or> hd rest = Separator"
  shows "elements (n @ rest) = n # elements rest"
proof -
  from assms obtain c cs where n: "n = c # cs" "c \<noteq> Separator" "Separator \<notin> set cs"
    by (cases n) auto
  from name_ok_takeWhile [OF n(3) assms(3)] n show ?thesis by simp
qed

lemma elements_names:
  "list_all name_ok ns \<Longrightarrow> elements (concat (map ((#) Separator) ns)) = ns"
proof (induction ns)
  case Nil
  then show ?case by simp
next
  case (Cons n ns)
  have rest: "concat (map ((#) Separator) ns) = [] \<or> hd (concat (map ((#) Separator) ns)) = Separator"
    by (cases ns) auto
  from Cons.prems have "n \<noteq> []" "Separator \<notin> set n" by (simp_all add: name_ok_def)
  from elements_name [OF this rest] Cons show ?case by simp
qed

lemma elements_path_of:
  assumes "list_all name_ok ns"
  shows "elements (path_of rooted ns) = (if \<not> rooted \<and> ns = [] then [''.''] else ns)"
proof (cases ns)
  case Nil
  then show ?thesis by (simp add: path_of_def)
next
  case (Cons n ms)
  have rest: "concat (map ((#) Separator) ms) = [] \<or> hd (concat (map ((#) Separator) ms)) = Separator"
    by (cases ms) auto
  from assms Cons have "n \<noteq> []" "Separator \<notin> set n" and ms: "list_all name_ok ms"
    by (simp_all add: name_ok_def)
  from elements_name [OF this(1,2) rest] elements_names [OF ms] Cons show ?thesis
    by (simp add: path_of_def strings_Join_Cons del: strings_Join.simps)
qed

lemma hd_path_of:
  assumes "list_all name_ok ns"
  shows "(hd (path_of rooted ns) = Separator) = rooted"
proof (cases ns)
  case Nil
  then show ?thesis by (simp add: path_of_def)
next
  case (Cons n ms)
  with assms obtain c cs where "n = c # cs" "c \<noteq> Separator"
    by (cases n) (auto simp: name_ok_def)
  with Cons show ?thesis by (simp add: path_of_def strings_Join_Cons del: strings_Join.simps)
qed

lemma walk_append:
  "walk st (xs @ ys) = (case walk st xs of Inl e \<Rightarrow> Inl e | Inr st' \<Rightarrow> walk st' ys)"
  by (induction st xs rule: walk.induct)
     (auto split: node.splits list.splits option.splits sum.splits)

lemma walk_dot: "walk st [''.''] = Inr st' \<Longrightarrow> st' = st"
  by (cases st) (auto split: node.splits)

lemma lookup_path_of:
  assumes ds: "list_all name_ok ds" and ns: "list_all name_ok ns"
    and dir: "lookup root cwd (path_of rooted ds) = Inr st"
  shows "lookup root cwd (path_of rooted (ds @ ns)) = walk st ns"
proof (cases "ns = []")
  case True
  with dir show ?thesis by simp
next
  case False
  from ds ns have all: "list_all name_ok (ds @ ns)" by simp
  note ne = path_of_nonempty [OF ds, of rooted] path_of_nonempty [OF all, of rooted]
  note hd = hd_path_of [OF ds, of rooted] hd_path_of [OF all, of rooted]
  note el = elements_path_of [OF ds, of rooted] elements_path_of [OF all, of rooted]
  show ?thesis
  proof (cases rooted)
    case True
    with dir ne hd el False show ?thesis
      by (simp add: lookup_def walk_append)
  next
    case nr: False
    from dir nr ne hd obtain st0 where st0: "walk (root, []) cwd = Inr st0"
      by (auto simp: lookup_def split: sum.splits)
    show ?thesis
    proof (cases "ds = []")
      case True
      with dir nr ne hd el st0 have "walk st0 [''.''] = Inr st" by (simp add: lookup_def)
      then have "st = st0" by (rule walk_dot)
      with True nr ne hd el st0 False show ?thesis by (simp add: lookup_def)
    next
      case False
      with dir nr ne hd el st0 have "walk st0 ds = Inr st" by (simp add: lookup_def)
      with False nr ne hd el st0 \<open>ns \<noteq> []\<close> show ?thesis
        by (simp add: lookup_def walk_append)
    qed
  qed
qed

lemma walk_child:
  assumes "walk st ns = Inr (Directory t ents, up)" and "name_ok n" and "map_of ents n = Some ch"
  shows "walk st (ns @ [n]) = Inr (ch, Directory t ents # up)"
  using assms by (simp add: walk_append name_ok_def)

subsection \<open>The contents of the archive\<close>

lemma depth_child: "e \<in> set ents \<Longrightarrow> depth (snd e) < depth (Directory t ents)"
proof -
  have "e \<in> set ents \<Longrightarrow> depth (snd e) \<le> foldr (\<lambda>e m. max (depth (snd e)) m) ents 0"
    by (induction ents) auto
  then show "e \<in> set ents \<Longrightarrow> depth (snd e) < depth (Directory t ents)" by simp
qed

lemma files_under_child:
  "e \<in> set ents \<Longrightarrow> set (files_under (ns @ [fst e]) (snd e)) \<subseteq> set (files_under ns (Directory t ents))"
  by auto

lemma wf_node_child:
  assumes "wf_node (Directory t ents)" and "(name, ch) \<in> set ents"
  shows "name_ok name" and "wf_node ch" and "map_of ents name = Some ch"
  using assms by (auto simp: list_all_iff)

lemma fi_Name_node_info: "fi_Name (node_info name nd) = name"
  by (cases nd) simp_all

lemma open_tree_OS:
  "lookup root cwd path = Inr (nd, up) \<Longrightarrow>
     os_Open (tree_OS root cwd) path = Inr (open_node path nd)"
  by (simp add: tree_OS_def)

lemma ReadDir_tree_OS:
  "lookup root cwd path = Inr (Directory t ents, up) \<Longrightarrow>
     ioutil_ReadDir (tree_OS root cwd) path = Inr (map (\<lambda>(name, ch). node_info name ch) ents)"
  by (simp add: tree_OS_def)

lemma addToArchive_tree:
  assumes ds: "list_all name_ok ds"
    and dir: "lookup root cwd (path_of rooted ds) = Inr st"
  shows "list_all name_ok ns \<Longrightarrow> walk st ns = Inr (nd, up) \<Longrightarrow> wf_node nd \<Longrightarrow>
         (ns = [] \<longrightarrow> (\<exists>t ents. nd = Directory t ents)) \<Longrightarrow>
         (\<forall>p \<in> fst ` set (files_under ns nd). length p \<le> 65535) \<Longrightarrow>
         depth nd < n \<Longrightarrow>
         addToArchive n (tree_OS root cwd) zw (path_of rooted ds) (path_of rooted (ds @ ns))
           = Some (zw\<lparr>zw_files := zw_files zw @ files_under ns nd\<rparr>, None)"
proof (induction n arbitrary: ns nd up zw)
  case 0
  then show ?case by simp
next
  case (Suc n)
  let ?os = "tree_OS root cwd"
  let ?dir = "path_of rooted ds"
  let ?path = "path_of rooted (ds @ ns)"
  note ns = Suc.prems(1)
  have rel: "Rel ?dir ?path = Inr (if ns = [] then ''.'' else strings_Join ns)"
    by (rule Rel_path_of [OF ds ns])
  have lk: "lookup root cwd ?path = Inr (nd, up)"
    using lookup_path_of [OF ds ns dir] Suc.prems(2) by simp
  note opn = open_tree_OS [OF lk]
  show ?case
  proof (cases nd)
    case (RegFile t c)
    with Suc.prems(4) have ne: "ns \<noteq> []" by auto
    from Suc.prems(5) RegFile have len: "\<not> 65535 < length (strings_Join ns)" by simp
    show ?thesis
      using ne len RegFile
      by (simp add: addToArchive.simps(2) rel opn zip_Create_def io_Copy_zip_def)
  next
    case (Directory t ents)
    from lk Directory have rd: "ioutil_ReadDir ?os ?path
        = Inr (map (\<lambda>(name, ch). node_info name ch) ents)"
      by (simp add: ReadDir_tree_OS)
    have range: "set es \<subseteq> set ents \<Longrightarrow>
        addToArchive_range n ?os zw' ?dir ?path (map (\<lambda>(name, ch). node_info name ch) es)
          = Some (zw'\<lparr>zw_files := zw_files zw'
                     @ concat (map (\<lambda>e. files_under (ns @ [fst e]) (snd e)) es)\<rparr>, None)"
      for es zw'
    proof (induction es arbitrary: zw')
      case Nil
      then show ?case by simp
    next
      case (Cons e es)
      obtain name ch where e: "e = (name, ch)" by (cases e)
      with Cons.prems have mem: "(name, ch) \<in> set ents" by simp
      from Suc.prems(3) Directory have wf: "wf_node (Directory t ents)" by simp
      note ch = wf_node_child [OF wf mem]
      from ds ns have all: "list_all name_ok (ds @ ns)" by simp
      have join: "Join [?path, name] = path_of rooted (ds @ ns @ [name])"
        using Join_path_of [OF all ch(1), of rooted] by simp
      have w: "walk st (ns @ [name]) = Inr (ch, nd # up)"
        using walk_child [OF _ ch(1) ch(3)] Suc.prems(2) Directory by simp
      have nms: "list_all name_ok (ns @ [name])" using ns ch(1) by simp
      have sub: "set (files_under (ns @ [name]) ch) \<subseteq> set (files_under ns nd)"
        using files_under_child [OF mem, of ns t] Directory by simp
      with Suc.prems(5) have len: "\<forall>p \<in> fst ` set (files_under (ns @ [name]) ch). length p \<le> 65535"
        by blast
      have d: "depth ch < n"
        using depth_child [OF mem, of t] Suc.prems(6) Directory by simp
      have one: "addToArchive n ?os zw' ?dir (path_of rooted (ds @ ns @ [name]))
                 = Some (zw'\<lparr>zw_files := zw_files zw' @ files_under (ns @ [name]) ch\<rparr>, None)"
        by (rule Suc.IH [OF nms w ch(2) _ len d]) simp
      from Cons.prems have "set es \<subseteq> set ents" by simp
      from Cons.IH [OF this] show ?case
        by (simp add: e fi_Name_node_info join one)
    qed
    show ?thesis
      using Directory range [OF subset_refl]
      by (simp add: addToArchive.simps(2) rel opn rd)
  qed
qed






subsection \<open>The order of the entries\<close>

lemma io_Copy_zip_prefix:
  "io_Copy_zip (zw\<lparr>zw_files := zw_files zw @ [(name, [])]\<rparr>) f = (zw', e)
     \<Longrightarrow> prefix (zw_files zw) (zw_files zw')"
  by (auto simp: io_Copy_zip_def)

lemma addToArchive_prefix:
  "(\<forall>zw' e. addToArchive n os zw dir path = Some (zw', e) \<longrightarrow> prefix (zw_files zw) (zw_files zw'))"
  "(\<forall>zw' e. addToArchive_range n os zw dir path fis = Some (zw', e)
       \<longrightarrow> prefix (zw_files zw) (zw_files zw'))"
proof (induction n os zw dir path and n os zw dir path fis
    rule: addToArchive_addToArchive_range.induct)
  case (1 os zw dir path)
  then show ?case by (simp add: addToArchive.simps)
next
  case (2 n os zw dir path)
  show ?case
  proof (intro allI impI)
    fix zw' e
    assume a: "addToArchive (Suc n) os zw dir path = Some (zw', e)"
    show "prefix (zw_files zw) (zw_files zw')"
    proof (cases "\<exists>rel f fi fis. Rel dir path = Inr rel \<and> os_Open os path = Inr f
        \<and> f_Stat f = Inr fi \<and> fi_IsDir fi \<and> ioutil_ReadDir os path = Inr fis")
      case True
      then obtain rel f fi fis where h: "Rel dir path = Inr rel" "os_Open os path = Inr f"
        "f_Stat f = Inr fi" "fi_IsDir fi" "ioutil_ReadDir os path = Inr fis" by blast
      with a have "addToArchive_range n os zw dir path fis = Some (zw', e)"
        by (simp add: addToArchive.simps)
      with "2.IH" [OF h] show ?thesis by blast
    next
      case False
      with a show ?thesis
        by (auto simp: addToArchive.simps zip_Create_def dest: io_Copy_zip_prefix
            split: sum.splits if_splits)
    qed
  qed
next
  case (3 n os zw dir path)
  then show ?case by simp
next
  case (4 n os zw dir path fi fis)
  show ?case
  proof (intro allI impI)
    fix zw' e
    assume a: "addToArchive_range n os zw dir path (fi # fis) = Some (zw', e)"
    then obtain zw1 e1 where one: "addToArchive n os zw dir (Join [path, fi_Name fi]) = Some (zw1, e1)"
      by (auto split: option.splits)
    with "4.IH"(1) have p1: "prefix (zw_files zw) (zw_files zw1)" by blast
    show "prefix (zw_files zw) (zw_files zw')"
    proof (cases e1)
      case None
      with a one have "addToArchive_range n os zw1 dir path fis = Some (zw', e)" by simp
      with "4.IH"(2) [OF one [unfolded None]] have "prefix (zw_files zw1) (zw_files zw')" by blast
      with p1 show ?thesis by (rule prefix_order.trans)
    next
      case (Some err)
      with a one p1 show ?thesis by simp
    qed
  qed
qed

lemma addToArchive_range_append:
  "addToArchive_range n os zw dir path (xs @ ys) =
     (case addToArchive_range n os zw dir path xs of
        None \<Rightarrow> None
      | Some (zw1, Some err) \<Rightarrow> Some (zw1, Some err)
      | Some (zw1, None) \<Rightarrow> addToArchive_range n os zw1 dir path ys)"
  by (induction xs arbitrary: zw) (auto split: option.splits prod.splits)

lemma handleGet_directory:
  assumes "os_Open os (Join [app_dir a, Clean (URL_Path r)]) = Inr f" and "f_Stat f = Inr fi"
    and "fi_IsDir fi" and "ioutil_ReadDir os (Join [app_dir a, Clean (URL_Path r)]) = Inr fis"
  shows "handleGet vr a os w r = (fst (serveDir vr w (Clean (URL_Path r)) fis), None)"
  using assms by (simp add: handleGet_def Let_def)

lemma addToArchive_directory:
  assumes "Rel dir path = Inr rel" and "os_Open os path = Inr f" and "f_Stat f = Inr fi"
    and "fi_IsDir fi" and "ioutil_ReadDir os path = Inr fis"
  shows "addToArchive (Suc n) os zw dir path = addToArchive_range n os zw dir path fis"
  using assms by (simp add: addToArchive.simps)

text \<open>
  C2. Let a directory be read, and let \<open>fis\<close> be the entries that the listing of the
  file system returns for it, in whatever order. The page that \<^verbatim>\<open>handleGet\<close> writes for
  the directory has one row for each entry, in the order of \<open>fis\<close>. \<^verbatim>\<open>addToArchive\<close>
  goes through \<open>fis\<close> from the first entry to the last: what it does for the entries
  \<open>xs @ ys\<close> is what it does for \<open>xs\<close> and then, with the zip writer that results and
  unless an error ended it, for \<open>ys\<close>; each entry is passed to \<^verbatim>\<open>addToArchive\<close> under
  the path joined with its name; and a zip writer only gains entries at its end, so
  that what the earlier entries add stands before what the later entries add. No
  step compares or reorders entries.
\<close>

theorem entries_in_listing_order:
  fixes os :: OS and fis :: "FileInfo list" and vr :: variant
  defines "row \<equiv> \<lambda>p e. concat (tmpl_row vr \<lparr>Path = Join [p, fi_Name e], Name = fi_Name e,
             Size = fi_Size e, ModTime = Format (fi_ModTime e), IsDir = fi_IsDir e\<rparr>)"
  assumes opn: "os_Open os path = Inr f" and st: "f_Stat f = Inr fi" and isdir: "fi_IsDir fi"
    and rd: "ioutil_ReadDir os path = Inr fis"
  shows "(Join [app_dir a, Clean (URL_Path r)] = path \<and> rw_budget w = None \<longrightarrow>
            handleGet vr a os w r = (fst (serveDir vr w (Clean (URL_Path r)) fis), None) \<and>
            body_text (fst (handleGet vr a os w r)) =
              body_text w @ tmpl_head vr @ Clean (URL_Path r) @ tmpl_style vr @ Clean (URL_Path r)
                @ tmpl_table vr @ concat (map (row (Clean (URL_Path r))) fis) @ tmpl_foot vr)
       \<and> (\<forall>rel. Rel dir path = Inr rel \<longrightarrow>
            addToArchive (Suc n) os zw dir path = addToArchive_range n os zw dir path fis)
       \<and> (\<forall>e. addToArchive_range n os zw dir path [e] =
            (case addToArchive n os zw dir (Join [path, fi_Name e]) of
               None \<Rightarrow> None | Some (zw1, res) \<Rightarrow> Some (zw1, res)))
       \<and> (\<forall>xs ys. fis = xs @ ys \<longrightarrow>
            addToArchive_range n os zw dir path fis =
              (case addToArchive_range n os zw dir path xs of
                 None \<Rightarrow> None
               | Some (zw1, Some err) \<Rightarrow> Some (zw1, Some err)
               | Some (zw1, None) \<Rightarrow> addToArchive_range n os zw1 dir path ys)
            \<and> (\<forall>zw1 e1 zw2 e2.
                  addToArchive_range n os zw dir path xs = Some (zw1, e1) \<and>
                  addToArchive_range n os zw dir path fis = Some (zw2, e2) \<longrightarrow>
                  prefix (zw_files zw) (zw_files zw1) \<and> prefix (zw_files zw1) (zw_files zw2)))"
proof (intro conjI allI impI)
  assume a: "Join [app_dir a, Clean (URL_Path r)] = path \<and> rw_budget w = None"
  with opn rd have o: "os_Open os (Join [app_dir a, Clean (URL_Path r)]) = Inr f"
    and l: "ioutil_ReadDir os (Join [app_dir a, Clean (URL_Path r)]) = Inr fis" by simp_all
  show g: "handleGet vr a os w r = (fst (serveDir vr w (Clean (URL_Path r)) fis), None)"
    by (rule handleGet_directory [OF o st isdir l])
  from a have "rw_budget w = None" by simp
  from serveDir_unlimited [OF this, of vr "Clean (URL_Path r)" fis]
  show "body_text (fst (handleGet vr a os w r)) =
              body_text w @ tmpl_head vr @ Clean (URL_Path r) @ tmpl_style vr @ Clean (URL_Path r)
                @ tmpl_table vr @ concat (map (row (Clean (URL_Path r))) fis) @ tmpl_foot vr"
    unfolding g row_def by simp
next
  fix rel assume "Rel dir path = Inr rel"
  then show "addToArchive (Suc n) os zw dir path = addToArchive_range n os zw dir path fis"
    using opn st isdir rd by (rule addToArchive_directory)
next
  fix e
  show "addToArchive_range n os zw dir path [e] =
            (case addToArchive n os zw dir (Join [path, fi_Name e]) of
               None \<Rightarrow> None | Some (zw1, res) \<Rightarrow> Some (zw1, res))"
    by (simp split: option.splits prod.splits)
next
  fix xs ys assume "fis = xs @ ys"
  then show "addToArchive_range n os zw dir path fis =
              (case addToArchive_range n os zw dir path xs of
                 None \<Rightarrow> None
               | Some (zw1, Some err) \<Rightarrow> Some (zw1, Some err)
               | Some (zw1, None) \<Rightarrow> addToArchive_range n os zw1 dir path ys)"
    by (simp only: addToArchive_range_append)
next
  fix xs ys zw1 e1 zw2 e2
  assume s: "fis = xs @ ys"
    and r: "addToArchive_range n os zw dir path xs = Some (zw1, e1) \<and>
            addToArchive_range n os zw dir path fis = Some (zw2, e2)"
  from r have r1: "addToArchive_range n os zw dir path xs = Some (zw1, e1)"
    and r2: "addToArchive_range n os zw dir path (xs @ ys) = Some (zw2, e2)"
    using s by simp_all
  from r1 addToArchive_prefix(2) [of n os zw dir path xs]
  show "prefix (zw_files zw) (zw_files zw1)" by blast
  show "prefix (zw_files zw1) (zw_files zw2)"
  proof (cases e1)
    case None
    from r2 have "addToArchive_range n os zw1 dir path ys = Some (zw2, e2)"
      unfolding addToArchive_range_append r1 None by simp
    with addToArchive_prefix(2) [of n os zw1 dir path ys] show ?thesis by blast
  next
    case (Some err)
    from r2 have "zw2 = zw1"
      unfolding addToArchive_range_append r1 Some by simp
    then show ?thesis by simp
  qed
qed

theorem entries_in_listing_order_witness:
  "body_text (fst (handleGet Extended (example_app ''/srv/pub'') example_OS (NewResponse None)
                     (GET ''/'')))
     = tmpl_head Extended @ ''/'' @ tmpl_style Extended @ ''/'' @ tmpl_table Extended
       @ concat (map (\<lambda>e. concat (tmpl_row Extended \<lparr>Path = Join [''/'', fi_Name e],
             Name = fi_Name e, Size = fi_Size e, ModTime = Format (fi_ModTime e),
             IsDir = fi_IsDir e\<rparr>))
           [node_info ''asdf'' (RegFile example_time ''content-A''),
            node_info ''sub'' (Directory example_time [(''x'', RegFile example_time ''X'')]),
            node_info ''qwer'' (RegFile example_time ''content-B'')])
       @ tmpl_foot Extended
   \<and> addToArchive (Suc 2) example_OS zip_NewWriter ''/srv/pub'' ''/srv/pub''
     = Some (\<lparr>zw_files = [(''asdf'', ''content-A''), (''sub/x'', ''X''),
                           (''qwer'', ''content-B'')]\<rparr>, None)"
proof -
  let ?a = "RegFile example_time ''content-A''"
  let ?s = "Directory example_time [(''x'', RegFile example_time ''X'')]"
  let ?q = "RegFile example_time ''content-B''"
  let ?pub = "Directory example_time [(''asdf'', ?a), (''sub'', ?s), (''qwer'', ?q)]"
  let ?up = "[Directory example_time
                [(''pub'', example_pub), (''secret.txt'', RegFile example_time ''top secret'')],
              example_root]"
  let ?fis = "[node_info ''asdf'' ?a, node_info ''sub'' ?s, node_info ''qwer'' ?q]"
  have p: "path_of True [''srv'', ''pub''] = ''/srv/pub''" by (simp add: path_of_def)
  have ds: "list_all name_ok [''srv'', ''pub'']" by (simp add: name_ok_def)
  have lk: "lookup example_root [''srv''] ''/srv/pub'' = Inr (?pub, ?up)" by code_simp
  have opn: "os_Open example_OS ''/srv/pub'' = Inr (open_node ''/srv/pub'' ?pub)"
    by (simp add: example_OS_def tree_OS_def lk)
  have st: "f_Stat (open_node ''/srv/pub'' ?pub) = Inr (node_info (Base ''/srv/pub'') ?pub)"
    by simp
  have isdir: "fi_IsDir (node_info (Base ''/srv/pub'') ?pub)" by simp
  have rd: "ioutil_ReadDir example_OS ''/srv/pub'' = Inr ?fis"
    by (simp add: example_OS_def tree_OS_def lk)
  note t = entries_in_listing_order [OF opn st isdir rd,
      where a = "example_app ''/srv/pub''" and r = "GET ''/''" and w = "NewResponse None"
        and vr = Extended and dir = "''/srv/pub''" and n = 2 and zw = zip_NewWriter]
  have c: "Clean ''/'' = ''/''" by code_simp
  have j: "Join [app_dir (example_app ''/srv/pub''), Clean (URL_Path (GET ''/''))] = ''/srv/pub''
           \<and> rw_budget (NewResponse None) = None"
    by (simp add: example_app_def GET_def ex_Join_root NewResponse_def)
  have b: "body_text (NewResponse None) = []" by (simp add: body_text_def NewResponse_def)
  have u: "URL_Path (GET ''/'') = ''/''" by (simp add: GET_def)
  from t [THEN conjunct1, rule_format, OF j, THEN conjunct2]
  have page: "body_text (fst (handleGet Extended (example_app ''/srv/pub'') example_OS
                    (NewResponse None) (GET ''/'')))
     = tmpl_head Extended @ ''/'' @ tmpl_style Extended @ ''/'' @ tmpl_table Extended
       @ concat (map (\<lambda>e. concat (tmpl_row Extended \<lparr>Path = Join [''/'', fi_Name e],
             Name = fi_Name e, Size = fi_Size e, ModTime = Format (fi_ModTime e),
             IsDir = fi_IsDir e\<rparr>)) ?fis)
       @ tmpl_foot Extended"
    unfolding u c b by (simp only: append_Nil)
  have rel: "Rel ''/srv/pub'' ''/srv/pub'' = Inr ''.''" by (simp add: Rel_def)
  from t [THEN conjunct2, THEN conjunct1, rule_format, OF rel]
  have whole: "addToArchive (Suc 2) example_OS zip_NewWriter ''/srv/pub'' ''/srv/pub''
      = addToArchive_range 2 example_OS zip_NewWriter ''/srv/pub'' ''/srv/pub'' ?fis" .
  have split: "?fis = [node_info ''asdf'' ?a] @ [node_info ''sub'' ?s, node_info ''qwer'' ?q]"
    by simp
  note parts = t [THEN conjunct2, THEN conjunct2, THEN conjunct2, rule_format, OF split,
      THEN conjunct1]
  have look: "lookup example_root [''srv''] (path_of True [''srv'', ''pub'']) = Inr (?pub, ?up)"
    unfolding p by (rule lk)
  have ja: "Join [''/srv/pub'', ''asdf''] = ''/srv/pub/asdf''" by code_simp
  have js: "Join [''/srv/pub'', ''sub''] = ''/srv/pub/sub''" by code_simp
  have jq: "Join [''/srv/pub'', ''qwer''] = ''/srv/pub/qwer''" by code_simp
  have a: "addToArchive 2 example_OS zw ''/srv/pub'' ''/srv/pub/asdf''
      = Some (zw\<lparr>zw_files := zw_files zw @ [(''asdf'', ''content-A'')]\<rparr>, None)" for zw
    using addToArchive_tree [OF ds look, of "[''asdf'']" ?a "?pub # ?up" 2 zw]
    by (simp add: name_ok_def path_of_def example_OS_def)
  have s: "addToArchive 2 example_OS zw ''/srv/pub'' ''/srv/pub/sub''
      = Some (zw\<lparr>zw_files := zw_files zw @ [(''sub/x'', ''X'')]\<rparr>, None)" for zw
    using addToArchive_tree [OF ds look, of "[''sub'']" ?s "?pub # ?up" 2 zw]
    by (simp add: name_ok_def path_of_def example_OS_def)
  have q: "addToArchive 2 example_OS zw ''/srv/pub'' ''/srv/pub/qwer''
      = Some (zw\<lparr>zw_files := zw_files zw @ [(''qwer'', ''content-B'')]\<rparr>, None)" for zw
    using addToArchive_tree [OF ds look, of "[''qwer'']" ?q "?pub # ?up" 2 zw]
    by (simp add: name_ok_def path_of_def example_OS_def)
  have zip: "addToArchive (Suc 2) example_OS zip_NewWriter ''/srv/pub'' ''/srv/pub''
     = Some (\<lparr>zw_files = [(''asdf'', ''content-A''), (''sub/x'', ''X''),
                           (''qwer'', ''content-B'')]\<rparr>, None)"
    unfolding whole parts
    by (simp add: ja js jq a s q zip_NewWriter_def)
  from page zip show ?thesis by (rule conjI)
qed

end
